(* ===== verification/Go_Prelude.thy ===== *)
theory Go_Prelude
  imports Main "HOL-Library.Word" "HOL-Library.List_Lexorder" "HOL-Library.Multiset"
begin

text \<open>
  Vocabulary shared by the models of the packages of \<^verbatim>\<open>service-pkg\<close>: Go's bytes, instants and
  durations, values of calls that may panic, the select statement over a context, reachable
  states of a step relation with the rule for inductive invariants, and the generic facts on
  lists that several components use.

  Instants (\<^verbatim>\<open>time.Time\<close>) and durations (\<^verbatim>\<open>time.Duration\<close>) are integers counting nanoseconds.
  \<^verbatim>\<open>Time.Unix\<close> rounds towards minus infinity, because \<^verbatim>\<open>time.Time\<close> keeps whole seconds and a
  non-negative nanosecond part; Isabelle's \<^verbatim>\<open>div\<close> rounds the same way.
\<close>

named_theorems inv_intros \<open>preservation of the component invariants\<close>

section \<open>Bytes, instants, durations\<close>

type_synonym byte = "8 word"
type_synonym bytes = "byte list"
type_synonym instant = int
type_synonym duration = int

definition Millisecond :: duration where "Millisecond = 1000000"

definition Second :: duration where "Second = 1000000000"

definition Minute :: duration where "Minute = 60 * Second"

definition Hour :: duration where "Hour = 60 * Minute"

definition Unix :: "instant \<Rightarrow> int" where
  "Unix t = t div Second"

text \<open>Go's integer division truncates towards zero.\<close>

definition go_div :: "int \<Rightarrow> int \<Rightarrow> int" where
  "go_div a b = sgn a * sgn b * (\<bar>a\<bar> div \<bar>b\<bar>)"

text \<open>\<^verbatim>\<open>bytes.Compare\<close>: lexicographic, \<open>-1\<close>, \<open>0\<close> or \<open>1\<close>.\<close>

fun bytes_Compare :: "bytes \<Rightarrow> bytes \<Rightarrow> int" where
  "bytes_Compare [] [] = 0"
| "bytes_Compare [] (y # ys) = -1"
| "bytes_Compare (x # xs) [] = 1"
| "bytes_Compare (x # xs) (y # ys) =
     (if x < y then -1 else if y < x then 1 else bytes_Compare xs ys)"

text \<open>The built-in \<^verbatim>\<open>copy(dst, src)\<close> overwrites the common prefix of \<open>dst\<close>.\<close>

definition go_copy :: "'a list \<Rightarrow> 'a list \<Rightarrow> 'a list" where
  "go_copy dst src = (let n = min (length dst) (length src) in take n src @ drop n dst)"

section \<open>Panics, errors of contexts\<close>

text \<open>A call returns a value or unwinds the stack with a panic value.\<close>

datatype 'a call = Return 'a | Panic string

datatype ctx_error = Canceled | DeadlineExceeded

text \<open>
  Errors: the sentinel values the packages compare with, \<^verbatim>\<open>*clickhouse.Exception\<close> with its code
  and message, and wrapped errors (\<^verbatim>\<open>fmt.Errorf\<close> with \<^verbatim>\<open>%w\<close>). A wrapped error holds the list of
  the errors its \<^verbatim>\<open>Unwrap\<close> yields.
\<close>

datatype go_error =
    ErrorString string
  | CtxError ctx_error
  | ErrUnexpectedEOF
  | Exception int string
  | Wrap string "go_error list"

text \<open>The message of an error.\<close>

fun Error :: "go_error \<Rightarrow> string" where
  "Error (ErrorString m) = m"
| "Error (CtxError Canceled) = ''context canceled''"
| "Error (CtxError DeadlineExceeded) = ''context deadline exceeded''"
| "Error ErrUnexpectedEOF = ''unexpected EOF''"
| "Error (Exception c m) = m"
| "Error (Wrap m es) = m"

text \<open>\<^verbatim>\<open>%q\<close> of a string without special characters.\<close>

definition go_quote :: "string \<Rightarrow> string" where
  "go_quote s = CHR 0x22 # s @ [CHR 0x22]"

text \<open>\<^verbatim>\<open>fmt.Errorf("...: %w", err)\<close>.\<close>

definition wrapf :: "string \<Rightarrow> go_error \<Rightarrow> go_error" where
  "wrapf m err = Wrap (m @ '': '' @ Error err) [err]"

text \<open>
  A context is the chain of the calls that made it. A cancel function is known by a number; a
  timeout also carries the instant at which it expires.
\<close>

datatype ctx =
    Background
  | WithCancel nat ctx
  | WithTimeout nat instant ctx
  | WithValue string string ctx
  | NoDeadlineCtx ctx

record ctx_env =
  env_cancelled :: "nat set"
  env_now :: instant

fun ctx_done :: "ctx_env \<Rightarrow> ctx \<Rightarrow> bool" where
  "ctx_done e Background \<longleftrightarrow> False"
| "ctx_done e (WithCancel i p) \<longleftrightarrow> i \<in> env_cancelled e \<or> ctx_done e p"
| "ctx_done e (WithTimeout i d p) \<longleftrightarrow> i \<in> env_cancelled e \<or> d \<le> env_now e \<or> ctx_done e p"
| "ctx_done e (WithValue k v p) \<longleftrightarrow> ctx_done e p"
| "ctx_done e (NoDeadlineCtx p) \<longleftrightarrow> ctx_done e p"

fun ctx_deadline :: "ctx \<Rightarrow> instant option" where
  "ctx_deadline Background = None"
| "ctx_deadline (WithCancel i p) = ctx_deadline p"
| "ctx_deadline (WithTimeout i d p) =
     (case ctx_deadline p of None \<Rightarrow> Some d | Some d' \<Rightarrow> Some (min d d'))"
| "ctx_deadline (WithValue k v p) = ctx_deadline p"
| "ctx_deadline (NoDeadlineCtx p) = None"

fun ctx_value :: "ctx \<Rightarrow> string \<Rightarrow> string option" where
  "ctx_value Background k = None"
| "ctx_value (WithCancel i p) k = ctx_value p k"
| "ctx_value (WithTimeout i d p) k = ctx_value p k"
| "ctx_value (WithValue k' v p) k = (if k = k' then Some v else ctx_value p k)"
| "ctx_value (NoDeadlineCtx p) k = ctx_value p k"

section \<open>Stable insertion\<close>

text \<open>Insertion behind every element whose key is not greater.\<close>

definition stable_insert :: "('a \<Rightarrow> 'k::linorder) \<Rightarrow> 'a \<Rightarrow> 'a list \<Rightarrow> 'a list" where
  "stable_insert key x xs =
     takeWhile (\<lambda>y. key y \<le> key x) xs @ x # dropWhile (\<lambda>y. key y \<le> key x) xs"

section \<open>Alternating sequences\<close>

text \<open>The elements are \<open>a\<close>, \<open>b\<close>, \<open>a\<close>, \<open>b\<close> and so on.\<close>

fun alternates :: "'a \<Rightarrow> 'a \<Rightarrow> 'a list \<Rightarrow> bool" where
  "alternates a b [] \<longleftrightarrow> True"
| "alternates a b (y # ys) \<longleftrightarrow> y = a \<and> alternates b a ys"

section \<open>Step relations and invariants\<close>

inductive reachable :: "('s \<Rightarrow> bool) \<Rightarrow> ('s \<Rightarrow> 's \<Rightarrow> bool) \<Rightarrow> 's \<Rightarrow> bool"
  for init :: "'s \<Rightarrow> bool" and step :: "'s \<Rightarrow> 's \<Rightarrow> bool" where
  reach_init: "init s \<Longrightarrow> reachable init step s"
| reach_step: "reachable init step s \<Longrightarrow> step s t \<Longrightarrow> reachable init step t"

text \<open>An invariant that holds initially and is kept by every step holds in every reachable state.\<close>

locale inductive_invariant =
  fixes init :: "'s \<Rightarrow> bool"
    and step :: "'s \<Rightarrow> 's \<Rightarrow> bool"
    and inv :: "'s \<Rightarrow> bool"
  assumes inv_init: "init s \<Longrightarrow> inv s"
    and inv_step: "inv s \<Longrightarrow> step s t \<Longrightarrow> inv t"
begin

lemma invariant: "reachable init step s \<Longrightarrow> inv s"
  by (induction rule: reachable.induct) (auto intro: inv_init inv_step)

lemma invariant_steps: "step\<^sup>*\<^sup>* s t \<Longrightarrow> inv s \<Longrightarrow> inv t"
  by (induction rule: rtranclp_induct) (auto intro: inv_step)

end

text \<open>
  A detailed system simulates an abstract one through \<open>abs\<close>: each of its steps is a step of the abstract
  system or changes nothing there, as long as the invariant holds, which the steps keep.
\<close>

locale simulation =
  fixes init :: "'s \<Rightarrow> bool"
    and step :: "'s \<Rightarrow> 's \<Rightarrow> bool"
    and inv :: "'s \<Rightarrow> bool"
    and abs :: "'s \<Rightarrow> 'a"
    and ainit :: "'a \<Rightarrow> bool"
    and astep :: "'a \<Rightarrow> 'a \<Rightarrow> bool"
  assumes sim_init: "init s \<Longrightarrow> inv s \<and> ainit (abs s)"
    and sim_step: "inv s \<Longrightarrow> step s t \<Longrightarrow> inv t \<and> (astep (abs s) (abs t) \<or> abs t = abs s)"
begin

lemma simulates: "reachable init step s \<Longrightarrow> inv s \<and> reachable ainit astep (abs s)"
proof (induction rule: reachable.induct)
  case (reach_init s)
  then show ?case by (auto dest: sim_init intro: reachable.reach_init)
next
  case (reach_step s t)
  with sim_step [of s t] show ?case by (auto intro: reachable.reach_step)
qed

end

section \<open>Generic lemmas\<close>

lemma ctx_done_mono:
  "ctx_done e c \<Longrightarrow> env_cancelled e \<subseteq> env_cancelled e' \<Longrightarrow> env_now e \<le> env_now e' \<Longrightarrow> ctx_done e' c"
  by (induction c) auto

lemma ctx_deadline_done: "ctx_deadline c = Some d \<Longrightarrow> d \<le> env_now e \<Longrightarrow> ctx_done e c"
  by (induction c arbitrary: d) (auto simp: min_le_iff_disj split: option.splits)

lemma bytes_Compare_less: "bytes_Compare xs ys < 0 \<longleftrightarrow> xs < ys"
  by (induction xs ys rule: bytes_Compare.induct) auto

lemma bytes_Compare_eq: "bytes_Compare xs ys = 0 \<longleftrightarrow> xs = ys"
  by (induction xs ys rule: bytes_Compare.induct) auto

lemma go_copy_all [simp]: "length dst = length src \<Longrightarrow> go_copy dst src = src"
  by (simp add: go_copy_def)

lemma go_div_nonneg: "0 \<le> a \<Longrightarrow> 0 < b \<Longrightarrow> go_div a b = a div b"
  by (cases "a = 0") (auto simp: go_div_def)

lemma Second_pos [simp]: "0 < Second"
  by (simp add: Second_def)

lemma alternates_last: "alternates a b ys \<Longrightarrow> ys \<noteq> [] \<Longrightarrow> last ys = a \<or> last ys = b"
  by (induction ys arbitrary: a b) (auto split: if_splits)

lemma alternates_snoc:
  assumes "a \<noteq> b"
  shows "alternates a b (ys @ [z]) \<longleftrightarrow>
    alternates a b ys \<and> z = (if ys = [] \<or> last ys = b then a else b)"
  using assms by (induction ys arbitrary: a b) (auto dest: alternates_last)

lemma reachable_steps:
  "reachable init step s \<Longrightarrow> step\<^sup>*\<^sup>* s t \<Longrightarrow> reachable init step t"
  by (rotate_tac, induction rule: rtranclp_induct) (auto intro: reachable.reach_step)

lemma dropWhile_le_sorted:
  assumes "sorted (map key xs)"
  shows "\<forall>y \<in> set (dropWhile (\<lambda>y. key y \<le> k) xs). k < key y"
proof (cases "dropWhile (\<lambda>y. key y \<le> k) xs")
  case (Cons z zs)
  then have "k < key z" by (metis dropWhile_eq_Cons_conv not_le)
  moreover have "sorted (map key (z # zs))"
    using assms Cons by (metis map_append sorted_append takeWhile_dropWhile_id)
  ultimately show ?thesis using Cons by auto
next
  case Nil
  then show ?thesis by (simp only: list.set ball_empty)
qed

lemma sorted_stable_insert:
  assumes "sorted (map key xs)"
  shows "sorted (map key (stable_insert key x xs))"
proof -
  let ?P = "\<lambda>y. key y \<le> key x"
  have "sorted (map key (takeWhile ?P xs))" "sorted (map key (dropWhile ?P xs))"
    using assms by (metis map_append sorted_append takeWhile_dropWhile_id)+
  with dropWhile_le_sorted [OF assms, of "key x"] show ?thesis
    unfolding stable_insert_def by (fastforce simp: sorted_append dest: set_takeWhileD)
qed

lemma mset_stable_insert: "mset (stable_insert key x xs) = add_mset x (mset xs)"
  unfolding stable_insert_def
  by (metis mset.simps(2) mset_append takeWhile_dropWhile_id union_mset_add_mset_right)

lemma set_stable_insert: "set (stable_insert key x xs) = insert x (set xs)"
  by (metis mset_stable_insert set_mset_add_mset_insert set_mset_mset)

lemma filter_stable_insert:
  assumes "sorted (map key xs)"
  shows "filter (\<lambda>y. key y = k) (stable_insert key x xs) =
    filter (\<lambda>y. key y = k) xs @ (if key x = k then [x] else [])"
proof -
  let ?P = "\<lambda>y. key y \<le> key x"
  have "filter (\<lambda>y. key y = k) xs =
      filter (\<lambda>y. key y = k) (takeWhile ?P xs) @ filter (\<lambda>y. key y = k) (dropWhile ?P xs)"
    by (metis filter_append takeWhile_dropWhile_id)
  moreover have "key x = k \<Longrightarrow> filter (\<lambda>y. key y = k) (dropWhile ?P xs) = []"
    using dropWhile_le_sorted [OF assms, of "key x"] by (auto simp: filter_empty_conv)
  ultimately show ?thesis by (auto simp: stable_insert_def)
qed

lemma sort_key_snoc: "sort_key key (xs @ [x]) = stable_insert key x (sort_key key xs)"
proof (rule properties_for_sort_key)
  show "mset (stable_insert key x (sort_key key xs)) = mset (xs @ [x])"
    by (simp add: mset_stable_insert)
  show "sorted (map key (stable_insert key x (sort_key key xs)))"
    by (simp add: sorted_stable_insert)
  fix z
  show "filter (\<lambda>y. key z = key y) (stable_insert key x (sort_key key xs)) =
      filter (\<lambda>y. key z = key y) (xs @ [x])"
    using filter_stable_insert [of key "sort_key key xs" "key z" x] sort_key_stable [of key "key z" xs]
    by (simp add: eq_commute)
qed

section \<open>Registries kept in key order\<close>

text \<open>
  A component that files entries one by one, each behind the entries whose key is not greater:
  \<open>rel\<close> relates its state to the list it stands for. Filing a sequence gives the stable sort.
\<close>

locale ordered_registry =
  fixes add :: "'s \<Rightarrow> 'e \<Rightarrow> 's option"
    and key :: "'e \<Rightarrow> 'k::linorder"
    and rel :: "'s \<Rightarrow> 'e list \<Rightarrow> bool"
    and empty :: 's
  assumes rel_empty: "rel empty []"
    and rel_add: "rel s es \<Longrightarrow> \<exists>s'. add s e = Some s' \<and> rel s' (stable_insert key e es)"
begin

fun add_all :: "'s \<Rightarrow> 'e list \<Rightarrow> 's option" where
  "add_all s [] = Some s"
| "add_all s (e # es) = (case add s e of None \<Rightarrow> None | Some s' \<Rightarrow> add_all s' es)"

lemma add_all_rel:
  "rel s (sort_key key ds) \<Longrightarrow> \<exists>s'. add_all s es = Some s' \<and> rel s' (sort_key key (ds @ es))"
proof (induction es arbitrary: s ds)
  case (Cons e es)
  from rel_add [OF Cons.prems, of e] obtain s1
    where s1: "add s e = Some s1" "rel s1 (sort_key key (ds @ [e]))"
    by (auto simp: sort_key_snoc)
  from Cons.IH [OF s1(2)] s1(1) show ?case by simp
qed auto

lemma add_all_sorted: "\<exists>s'. add_all empty es = Some s' \<and> rel s' (sort_key key es)"
  using add_all_rel [of empty "[]" es] rel_empty by simp

end

end
