(* ===== verification/Utils.thy ===== *)
theory Utils
  imports Go_Prelude
begin

text \<open>
  The package \<^verbatim>\<open>utils\<close>: the two-pointer difference of sorted slices and the order-preserving
  removal of duplicates (\<^verbatim>\<open>difference.go\<close>), the rendering of slices (\<^verbatim>\<open>slice.go\<close>), and the
  goroutine helpers (\<^verbatim>\<open>runtime_utils.go\<close>).

  The loop of \<^verbatim>\<open>SortedDifference\<close> keeps the source's two indices; a structural recursion is the
  reference it is shown equal to.
\<close>

section \<open>difference.go\<close>

function SortedDifference_loop ::
    "'a::linorder list \<Rightarrow> 'a list \<Rightarrow> nat \<Rightarrow> nat \<Rightarrow> 'a list \<Rightarrow> nat \<times> 'a list" where
  "SortedDifference_loop base exclude baseIdx exclIdx result =
     (if baseIdx < length base \<and> exclIdx < length exclude then
        if base ! baseIdx < exclude ! exclIdx then
          SortedDifference_loop base exclude (baseIdx + 1) exclIdx (result @ [base ! baseIdx])
        else if base ! baseIdx > exclude ! exclIdx then
          SortedDifference_loop base exclude baseIdx (exclIdx + 1) result
        else
          SortedDifference_loop base exclude (baseIdx + 1) (exclIdx + 1) result
      else (baseIdx, result))"
  by pat_completeness auto
termination
  by (relation "measure (\<lambda>(base, exclude, i, j, _). (length base - i) + (length exclude - j))")
    auto

declare SortedDifference_loop.simps [simp del]

definition SortedDifference :: "'a::linorder list \<Rightarrow> 'a list \<Rightarrow> 'a list" where
  "SortedDifference base exclude =
     (let (baseIdx, result) = SortedDifference_loop base exclude 0 0 []
      in result @ drop baseIdx base)"

fun Distinct_loop :: "('a \<rightharpoonup> unit) \<Rightarrow> 'a list \<Rightarrow> 'a list \<Rightarrow> 'a list" where
  "Distinct_loop seen out [] = out"
| "Distinct_loop seen out (v # src) =
     (if seen v \<noteq> None then Distinct_loop seen out src
      else Distinct_loop (seen(v \<mapsto> ())) (out @ [v]) src)"

definition Distinct :: "'a list \<Rightarrow> 'a list" where
  "Distinct src = Distinct_loop Map.empty [] src"

section \<open>slice.go\<close>

text \<open>\<open>sprintf\<close> renders one element as \<^verbatim>\<open>fmt.Sprintf("%v", it)\<close> does for the slice's element type.\<close>

fun SliceToStrings_loop :: "('a \<Rightarrow> string) \<Rightarrow> string list \<Rightarrow> 'a list \<Rightarrow> string list" where
  "SliceToStrings_loop sprintf out [] = out"
| "SliceToStrings_loop sprintf out (it # items) =
     SliceToStrings_loop sprintf (out @ [sprintf it]) items"

definition SliceToStrings :: "('a \<Rightarrow> string) \<Rightarrow> 'a list \<Rightarrow> string list" where
  "SliceToStrings sprintf items = SliceToStrings_loop sprintf [] items"

section \<open>custom\_context.go\<close>

text \<open>
  \<open>i\<close> names the cancel function that is returned, \<open>t\<close> is the instant of the call.
\<close>

definition TimeoutNoDeadline :: "nat \<Rightarrow> instant \<Rightarrow> ctx \<Rightarrow> duration \<Rightarrow> ctx \<times> nat" where
  "TimeoutNoDeadline i t parent d =
     (let tctx = WithTimeout i (t + d) parent in (NoDeadlineCtx tctx, i))"

section \<open>runtime\_utils.go\<close>

text \<open>
  The body of a goroutine transforms the state and may end with a panic. How the goroutine of
  \<^verbatim>\<open>GoRecover\<close> ends: not started because the context was done, finished, or recovered.
\<close>

type_synonym 's body = "'s \<Rightarrow> 's \<times> string option"

datatype goroutine_end = NotStarted | Finished | Recovered string

definition GoRecover :: "bool \<Rightarrow> 's body \<Rightarrow> 's \<Rightarrow> 's \<times> goroutine_end" where
  "GoRecover done_at_start fn s =
     (if done_at_start then (s, NotStarted)
      else case fn s of
        (s', None) \<Rightarrow> (s', Finished)
      | (s', Some r) \<Rightarrow> (s', Recovered r))"

text \<open>\<^verbatim>\<open>defer Recover(ctx)\<close>: what a function that ends with or without a panic becomes.\<close>

definition Recover :: "'s \<times> string option \<Rightarrow> 's \<times> string option" where
  "Recover e = (case e of (s, Some r) \<Rightarrow> (s, None) | (s, None) \<Rightarrow> (s, None))"

text \<open>The dynamic type of a recovered value decides the error.\<close>

datatype any_value = AnyError go_error | AnyString string | AnyOther string

fun panicToError :: "any_value \<Rightarrow> go_error" where
  "panicToError (AnyError v) = v"
| "panicToError (AnyString v) = ErrorString v"
| "panicToError (AnyOther v) = ErrorString (''panic: '' @ v)"

text \<open>
  \<^verbatim>\<open>WaitOrCtx\<close> selects between the context and the timer: \<open>ctx_err\<close> is the context's error when it
  is done, \<open>fired\<close> tells whether the timer has fired. A ready alternative may be taken, and the
  statement blocks while none is ready.
\<close>

inductive WaitOrCtx :: "ctx_error option \<Rightarrow> bool \<Rightarrow> ctx_error option \<Rightarrow> bool" where
  wait_ctx: "WaitOrCtx (Some e) fired (Some e)"
| wait_timer: "WaitOrCtx ctx_err True None"

inductive_simps WaitOrCtx_iff: "WaitOrCtx c fired r"

section \<open>Reference definition\<close>

text \<open>The reference: difference of two ascending lists, element by element.\<close>

fun diff_ref :: "'a::linorder list \<Rightarrow> 'a list \<Rightarrow> 'a list" where
  "diff_ref [] ys = []"
| "diff_ref xs [] = xs"
| "diff_ref (x # xs) (y # ys) =
     (if x < y then x # diff_ref xs (y # ys)
      else if x > y then diff_ref (x # xs) ys
      else diff_ref xs ys)"

section \<open>Lemmas\<close>

lemma diff_ref_Nil2 [simp]: "diff_ref xs [] = xs"
  by (cases xs) auto

lemma SortedDifference_loop_ref:
  "(case SortedDifference_loop base exclude i j result of
      (k, r) \<Rightarrow> r @ drop k base) = result @ diff_ref (drop i base) (drop j exclude)"
proof (induction base exclude i j result rule: SortedDifference_loop.induct)
  case (1 base exclude i j result)
  show ?case
  proof (cases "i < length base \<and> j < length exclude")
    case True
    then have "drop i base = base ! i # drop (Suc i) base"
      and "drop j exclude = exclude ! j # drop (Suc j) exclude"
      by (simp_all add: Cons_nth_drop_Suc)
    with True "1.IH" show ?thesis
      by (auto simp: SortedDifference_loop.simps [of base exclude i j])
  next
    case False
    then show ?thesis
      by (auto simp: SortedDifference_loop.simps [of base exclude i j])
  qed
qed

lemma SortedDifference_ref: "SortedDifference base exclude = diff_ref base exclude"
  using SortedDifference_loop_ref [of base exclude 0 0 "[]"]
  by (simp add: SortedDifference_def)

lemma mset_diff_ref:
  "sorted xs \<Longrightarrow> sorted ys \<Longrightarrow> mset (diff_ref xs ys) = mset xs - mset ys"
proof (induction xs ys rule: diff_ref.induct)
  case (3 x xs y ys)
  then consider "x < y" | "x > y" | "x = y" by force
  then show ?case
  proof cases
    case 1
    with "3.prems" have "x \<notin># mset (y # ys)" by auto
    with 1 "3.IH"(1) "3.prems" show ?thesis
      by (simp add: add_mset_diff_bothsides diff_add_mset_swap)
  next
    case 2
    with "3.prems" have "y \<notin># mset (x # xs)" by auto
    with 2 "3.IH"(2) "3.prems" show ?thesis
      by (metis diff_ref.simps(3) less_asym' minus_add_mset_if_not_in_lhs mset.simps(2) sorted_wrt.simps(2))
  next
    case 3
    with "3.IH"(3) "3.prems" show ?thesis by simp
  qed
qed auto

lemma set_diff_ref: "set (diff_ref xs ys) \<subseteq> set xs"
  by (induction xs ys rule: diff_ref.induct) auto

lemma sorted_diff_ref: "sorted xs \<Longrightarrow> sorted (diff_ref xs ys)"
  by (induction xs ys rule: diff_ref.induct) (auto dest: subsetD [OF set_diff_ref])

lemma Distinct_loop_out:
  "Distinct_loop seen out src = out @ Distinct_loop seen [] src"
proof (induction src arbitrary: seen out)
  case (Cons v src)
  have "Distinct_loop s (out @ [v]) src = out @ Distinct_loop s [v] src" for s
    using Cons.IH [of s "out @ [v]"] Cons.IH [of s "[v]"] by simp
  then show ?case using Cons.IH [of seen out] by simp
qed simp

lemma remdups_snoc: "remdups (xs @ [x]) = filter (\<lambda>y. y \<noteq> x) (remdups xs) @ [x]"
  by (induction xs) auto

lemma Distinct_loop_remdups:
  "Distinct_loop seen [] src = filter (\<lambda>v. seen v = None) (rev (remdups (rev src)))"
proof (induction src arbitrary: seen)
  case (Cons v src)
  then show ?case
    by (simp add: Distinct_loop_out [of _ "[v]"] remdups_snoc rev_filter filter_filter)
      (auto intro!: filter_cong)
qed simp

lemma SliceToStrings_loop_map: "SliceToStrings_loop f out xs = out @ map f xs"
  by (induction xs arbitrary: out) auto

lemma GoRecover_not_started: "GoRecover True fn s = (s, NotStarted)"
  by (simp add: GoRecover_def)

lemma GoRecover_started: "fst (GoRecover False fn s) = fst (fn s)"
  by (simp add: GoRecover_def split: prod.splits option.splits)

section \<open>Properties\<close>

text \<open>
  C36. On ascending inputs \<^verbatim>\<open>SortedDifference\<close> computes the multiset difference (each element of
  \<open>exclude\<close> removes one occurrence from \<open>base\<close>), in ascending order.
\<close>

theorem SortedDifference_correct:
  assumes "sorted base" and "sorted exclude"
  shows "mset (SortedDifference base exclude) = mset base - mset exclude \<and>
    sorted (SortedDifference base exclude)"
  using assms by (simp add: SortedDifference_ref mset_diff_ref sorted_diff_ref)

theorem SortedDifference_correct_witness:
  "mset (SortedDifference [1, 2, 2, 5] [2, 3::int]) = {#1, 2, 5#}"
proof -
  have "sorted [1, 2, 2, 5::int]" "sorted [2, 3::int]" by simp_all
  from SortedDifference_correct [OF this] show ?thesis by simp
qed

text \<open>
  \<^verbatim>\<open>Distinct\<close> keeps exactly the first occurrence of every element, in the order of the input.
\<close>

theorem Distinct_spec:
  "Distinct src = rev (remdups (rev src)) \<and> distinct (Distinct src) \<and> set (Distinct src) = set src"
  using Distinct_loop_remdups [of Map.empty src] by (simp add: Distinct_def)

text \<open>
  The context of \<^verbatim>\<open>TimeoutNoDeadline\<close> shows no deadline to the driver and is nevertheless done as
  soon as the timeout passes, its cancel function is called or the parent is done.
\<close>

theorem TimeoutNoDeadline_spec:
  "ctx_deadline (fst (TimeoutNoDeadline i t parent d)) = None \<and>
   (ctx_done e (fst (TimeoutNoDeadline i t parent d)) \<longleftrightarrow>
      snd (TimeoutNoDeadline i t parent d) \<in> env_cancelled e \<or> t + d \<le> env_now e \<or> ctx_done e parent)"
  by (simp add: TimeoutNoDeadline_def)

end
