(* ===== verification/Byte_BTree.thy ===== *)
theory Byte_BTree
  imports Go_Prelude
begin

text \<open>
  The package \<^verbatim>\<open>database/in_memory_storage/btree\<close> (\<^verbatim>\<open>btree_bytes.go\<close>): a tree of items ordered by
  byte keys, with expiry. The two item structs are records, the interface \<^verbatim>\<open>Item\<close> is the sum of
  the dynamic types. Nil interface values are \<open>None\<close>. A nil byte slice and an empty one are the
  same list: the code only asks for their length.

  The balanced tree itself is the package \<^verbatim>\<open>github.com/google/btree\<close>, which is not part of this
  repository: it is the method table \<open>btree_ops\<close> carried by the object, and \<open>btree_contract\<close>
  states its documented behaviour in terms of the order in which \<^verbatim>\<open>Ascend\<close> visits the items.
  A \<open>ByteKeyBTree\<close> is well formed when its table obeys the contract, its items ascend and no key
  is empty.

  Every method holds the mutex for its whole body and is one function here, except
  \<^verbatim>\<open>PurgeExpiredAt\<close>, which releases the read lock before it takes the write lock: its two critical
  sections are two functions, so that another goroutine's step can be put between them.
\<close>

section \<open>Items\<close>

record ValueNodeItem =
  vni_valueBytes :: bytes
  vni_keyBytes :: bytes
  vni_timestampUnixSeconds :: int

record FilterNodeItem =
  fni_keyBytes :: bytes
  fni_timestampUnixSeconds :: int

datatype Item = Value_Item ValueNodeItem | Filter_Item FilterNodeItem

definition cloneBytes :: "bytes \<Rightarrow> bytes" where
  "cloneBytes src = (if length src = 0 then [] else go_copy (replicate (length src) 0) src)"

definition NewValueNodeItem :: "bytes \<Rightarrow> bytes \<Rightarrow> instant \<Rightarrow> Item" where
  "NewValueNodeItem key val expiration =
     Value_Item \<lparr>vni_valueBytes = cloneBytes val, vni_keyBytes = cloneBytes key,
       vni_timestampUnixSeconds = Unix expiration\<rparr>"

definition NewFilterNodeItem :: "bytes \<Rightarrow> instant \<Rightarrow> Item" where
  "NewFilterNodeItem key expiration =
     Filter_Item \<lparr>fni_keyBytes = cloneBytes key, fni_timestampUnixSeconds = Unix expiration\<rparr>"

text \<open>The methods of \<^verbatim>\<open>FilterNodeItem\<close>, then those of the interface, which call the method of the item's type.\<close>

definition FilterNodeItem_Key :: "FilterNodeItem \<Rightarrow> bytes" where
  [simp]: "FilterNodeItem_Key a = fni_keyBytes a"

definition FilterNodeItem_Value :: "FilterNodeItem \<Rightarrow> bytes" where
  [simp]: "FilterNodeItem_Value a = []"

definition FilterNodeItem_GetExpirationTime :: "FilterNodeItem \<Rightarrow> int" where
  [simp]: "FilterNodeItem_GetExpirationTime a = fni_timestampUnixSeconds a"

fun Key :: "Item \<Rightarrow> bytes" where
  "Key (Value_Item v) = vni_keyBytes v"
| "Key (Filter_Item a) = FilterNodeItem_Key a"

fun Value :: "Item \<Rightarrow> bytes" where
  "Value (Value_Item v) = vni_valueBytes v"
| "Value (Filter_Item a) = FilterNodeItem_Value a"

definition FilterNodeItem_Less :: "FilterNodeItem \<Rightarrow> Item \<Rightarrow> bool" where
  [simp]: "FilterNodeItem_Less a b \<longleftrightarrow> bytes_Compare (fni_keyBytes a) (Key b) < 0"

fun Less :: "Item \<Rightarrow> Item \<Rightarrow> bool" where
  "Less (Value_Item v) b \<longleftrightarrow> bytes_Compare (vni_keyBytes v) (Key b) < 0"
| "Less (Filter_Item a) b \<longleftrightarrow> FilterNodeItem_Less a b"

fun GetExpirationTime :: "Item \<Rightarrow> int" where
  "GetExpirationTime (Value_Item v) = vni_timestampUnixSeconds v"
| "GetExpirationTime (Filter_Item a) = FilterNodeItem_GetExpirationTime a"

section \<open>The tree package\<close>

record 't btree_ops =
  bt_NewWithFreeList :: "int \<Rightarrow> int \<Rightarrow> 't"
  bt_ReplaceOrInsert :: "'t \<Rightarrow> Item \<Rightarrow> 't \<times> Item option"
  bt_Delete :: "'t \<Rightarrow> Item \<Rightarrow> 't \<times> Item option"
  bt_Get :: "'t \<Rightarrow> Item \<Rightarrow> Item option"
  bt_Ascend :: "'t \<Rightarrow> Item list"
  bt_Len :: "'t \<Rightarrow> nat"
  bt_Clear :: "'t \<Rightarrow> bool \<Rightarrow> 't"

text \<open>Items are equal for the tree when neither is less than the other.\<close>

definition equal_items :: "Item \<Rightarrow> Item \<Rightarrow> bool" where
  "equal_items a b \<longleftrightarrow> \<not> Less a b \<and> \<not> Less b a"

definition ascending :: "Item list \<Rightarrow> bool" where
  "ascending xs \<longleftrightarrow> sorted_wrt Less xs"

definition new_contract :: "'t btree_ops \<Rightarrow> bool" where
  "new_contract ops \<longleftrightarrow>
     (\<forall>degree cap. 0 < degree \<longrightarrow> bt_Ascend ops (bt_NewWithFreeList ops degree cap) = []) \<and>
     (\<forall>t keep. bt_Ascend ops (bt_Clear ops t keep) = [])"

definition read_contract :: "'t btree_ops \<Rightarrow> bool" where
  "read_contract ops \<longleftrightarrow>
     (\<forall>t x. ascending (bt_Ascend ops t) \<longrightarrow>
        bt_Get ops t x = find (equal_items x) (bt_Ascend ops t)) \<and>
     (\<forall>t. ascending (bt_Ascend ops t) \<longrightarrow> bt_Len ops t = length (bt_Ascend ops t))"

definition write_contract :: "'t btree_ops \<Rightarrow> bool" where
  "write_contract ops \<longleftrightarrow>
     (\<forall>t x t' old. ascending (bt_Ascend ops t) \<longrightarrow> bt_ReplaceOrInsert ops t x = (t', old) \<longrightarrow>
        old = find (equal_items x) (bt_Ascend ops t) \<and> ascending (bt_Ascend ops t') \<and>
        set (bt_Ascend ops t') = insert x {y \<in> set (bt_Ascend ops t). \<not> equal_items x y}) \<and>
     (\<forall>t x t' old. ascending (bt_Ascend ops t) \<longrightarrow> bt_Delete ops t x = (t', old) \<longrightarrow>
        old = find (equal_items x) (bt_Ascend ops t) \<and> ascending (bt_Ascend ops t') \<and>
        set (bt_Ascend ops t') = {y \<in> set (bt_Ascend ops t). \<not> equal_items x y})"

definition btree_contract :: "'t btree_ops \<Rightarrow> bool" where
  "btree_contract ops \<longleftrightarrow> new_contract ops \<and> read_contract ops \<and> write_contract ops"

text \<open>
  \<^verbatim>\<open>Ascend\<close> with an iterator: it is called on one item after the other until it returns false.
  The iterator's captured variables are the state \<open>s\<close>.
\<close>

fun Ascend_with :: "('s \<Rightarrow> Item \<Rightarrow> 's \<times> bool) \<Rightarrow> 's \<Rightarrow> Item list \<Rightarrow> 's" where
  "Ascend_with iter s [] = s"
| "Ascend_with iter s (x # xs) =
     (case iter s x of (s', go_on) \<Rightarrow> if go_on then Ascend_with iter s' xs else s')"

section \<open>ByteKeyBTree\<close>

record 't ByteKeyBTree =
  tree_ops :: "'t btree_ops"
  tree :: 't

record Options =
  Degree :: int
  FreeListCapacity :: int

definition NewByteKeyBTree :: "'t btree_ops \<Rightarrow> Options \<Rightarrow> 't ByteKeyBTree" where
  "NewByteKeyBTree ops opts =
     (let degree = Degree opts;
          degree = (if degree \<le> 0 then 32 else degree);
          cap = (if FreeListCapacity opts \<le> 0 then 80000 else FreeListCapacity opts)
      in \<lparr>tree_ops = ops, tree = bt_NewWithFreeList ops degree cap\<rparr>)"

definition ReplaceOrInsert :: "'t ByteKeyBTree \<Rightarrow> Item \<Rightarrow> 't ByteKeyBTree \<times> Item option" where
  "ReplaceOrInsert b item =
     (case bt_ReplaceOrInsert (tree_ops b) (tree b) item of (t, prev) \<Rightarrow> (b\<lparr>tree := t\<rparr>, prev))"

definition tree_Delete :: "'t ByteKeyBTree \<Rightarrow> Item \<Rightarrow> 't ByteKeyBTree \<times> Item option" where
  "tree_Delete b item =
     (case bt_Delete (tree_ops b) (tree b) item of (t, prev) \<Rightarrow> (b\<lparr>tree := t\<rparr>, prev))"

definition Upsert :: "'t ByteKeyBTree \<Rightarrow> Item option \<Rightarrow> 't ByteKeyBTree \<times> bool" where
  "Upsert b item =
     (case item of None \<Rightarrow> (b, False)
      | Some it \<Rightarrow>
          if length (Key it) = 0 then (b, False)
          else case ReplaceOrInsert b it of (b', prev) \<Rightarrow> (b', prev = None))"

fun UpsertMany_loop :: "'t ByteKeyBTree \<Rightarrow> nat \<Rightarrow> Item option list \<Rightarrow> 't ByteKeyBTree \<times> nat" where
  "UpsertMany_loop b added [] = (b, added)"
| "UpsertMany_loop b added (None # items) = UpsertMany_loop b added items"
| "UpsertMany_loop b added (Some item # items) =
     (if length (Key item) = 0 then UpsertMany_loop b added items
      else case ReplaceOrInsert b item of (b', prev) \<Rightarrow>
        UpsertMany_loop b' (if prev = None then added + 1 else added) items)"

definition UpsertMany :: "'t ByteKeyBTree \<Rightarrow> Item option list \<Rightarrow> 't ByteKeyBTree \<times> nat" where
  "UpsertMany b items = (if length items = 0 then (b, 0) else UpsertMany_loop b 0 items)"

definition Delete :: "'t ByteKeyBTree \<Rightarrow> Item option \<Rightarrow> 't ByteKeyBTree \<times> bool" where
  "Delete b item =
     (case item of None \<Rightarrow> (b, False)
      | Some it \<Rightarrow>
          if length (Key it) = 0 then (b, False)
          else case tree_Delete b it of (b', prev) \<Rightarrow> (b', prev \<noteq> None))"

fun DeleteMany_loop :: "'t ByteKeyBTree \<Rightarrow> nat \<Rightarrow> Item option list \<Rightarrow> 't ByteKeyBTree \<times> nat" where
  "DeleteMany_loop b deleted [] = (b, deleted)"
| "DeleteMany_loop b deleted (None # items) = DeleteMany_loop b deleted items"
| "DeleteMany_loop b deleted (Some item # items) =
     (if length (Key item) = 0 then DeleteMany_loop b deleted items
      else case tree_Delete b item of (b', prev) \<Rightarrow>
        DeleteMany_loop b' (if prev \<noteq> None then deleted + 1 else deleted) items)"

definition DeleteMany :: "'t ByteKeyBTree \<Rightarrow> Item option list \<Rightarrow> 't ByteKeyBTree \<times> nat" where
  "DeleteMany b items = (if length items = 0 then (b, 0) else DeleteMany_loop b 0 items)"

definition Has :: "'t ByteKeyBTree \<Rightarrow> Item option \<Rightarrow> bool" where
  "Has b item =
     (case item of None \<Rightarrow> False
      | Some it \<Rightarrow> if length (Key it) = 0 then False
                   else bt_Get (tree_ops b) (tree b) it \<noteq> None)"

definition GetNodeItem :: "'t ByteKeyBTree \<Rightarrow> Item option \<Rightarrow> Item option" where
  "GetNodeItem b item =
     (case item of None \<Rightarrow> None
      | Some it \<Rightarrow> if length (Key it) = 0 then None
                   else bt_Get (tree_ops b) (tree b) it)"

text \<open>The pair \<^verbatim>\<open>(0, false)\<close> of the source when the key is absent.\<close>

definition GetLastWriteUnix :: "'t ByteKeyBTree \<Rightarrow> Item option \<Rightarrow> int \<times> bool" where
  "GetLastWriteUnix b item =
     (case item of None \<Rightarrow> (0, False)
      | Some it \<Rightarrow>
          (case bt_Get (tree_ops b) (tree b) it of
             None \<Rightarrow> (0, False)
           | Some res \<Rightarrow> (GetExpirationTime res, True)))"

text \<open>
  The callback of \<^verbatim>\<open>ForEach\<close> may change captured state \<open>s\<close>; \<open>None\<close> is the nil callback.
\<close>

definition ForEach ::
    "'t ByteKeyBTree \<Rightarrow> ('s \<Rightarrow> bytes \<Rightarrow> int \<Rightarrow> 's \<times> bool) option \<Rightarrow> 's \<Rightarrow> string + 's" where
  "ForEach b callback s =
     (case callback of None \<Rightarrow> Inl ''nil callback''
      | Some cb \<Rightarrow>
          Inr (Ascend_with (\<lambda>s it. cb s (cloneBytes (Key it)) (GetExpirationTime it)) s
                (bt_Ascend (tree_ops b) (tree b))))"

definition Size :: "'t ByteKeyBTree \<Rightarrow> nat" where
  "Size b = bt_Len (tree_ops b) (tree b)"

definition Reset :: "'t ByteKeyBTree \<Rightarrow> 't ByteKeyBTree" where
  "Reset b = b\<lparr>tree := bt_Clear (tree_ops b) (tree b) True\<rparr>"

text \<open>The iterator shared by the two expiry scans: collect, and stop at the limit if there is one.\<close>

definition collect_expired :: "int \<Rightarrow> int \<Rightarrow> Item list \<Rightarrow> Item \<Rightarrow> Item list \<times> bool" where
  "collect_expired cutoff maxCount out it =
     (if GetExpirationTime it \<le> cutoff then
        (let out' = out @ [it] in
           (out', \<not> (maxCount > 0 \<and> int (length out') \<ge> maxCount)))
      else (out, True))"

definition PurgeExpiredAt_collect ::
    "'t ByteKeyBTree \<Rightarrow> instant \<Rightarrow> duration \<Rightarrow> int \<Rightarrow> Item list" where
  "PurgeExpiredAt_collect b t ttl maxToDelete =
     (let cutoffUnix = Unix (t + - ttl)
      in Ascend_with (collect_expired cutoffUnix maxToDelete) []
           (bt_Ascend (tree_ops b) (tree b)))"

fun PurgeExpiredAt_delete :: "'t ByteKeyBTree \<Rightarrow> nat \<Rightarrow> Item list \<Rightarrow> 't ByteKeyBTree \<times> nat" where
  "PurgeExpiredAt_delete b deleted [] = (b, deleted)"
| "PurgeExpiredAt_delete b deleted (item # items) =
     (case tree_Delete b item of (b', prev) \<Rightarrow>
        PurgeExpiredAt_delete b' (if prev \<noteq> None then deleted + 1 else deleted) items)"

definition PurgeExpiredAt ::
    "'t ByteKeyBTree \<Rightarrow> instant \<Rightarrow> duration \<Rightarrow> int \<Rightarrow> 't ByteKeyBTree \<times> nat" where
  "PurgeExpiredAt b t ttl maxToDelete =
     (if ttl \<le> 0 then (b, 0)
      else let itemsToDelete = PurgeExpiredAt_collect b t ttl maxToDelete
        in if length itemsToDelete = 0 then (b, 0)
           else PurgeExpiredAt_delete b 0 itemsToDelete)"

text \<open>\<open>None\<close> is the nil slice returned for a non-positive \<open>ttl\<close>.\<close>

definition ListExpiredAt ::
    "'t ByteKeyBTree \<Rightarrow> instant \<Rightarrow> duration \<Rightarrow> int \<Rightarrow> Item list option" where
  "ListExpiredAt b t ttl maxCount =
     (if ttl \<le> 0 then None
      else let cutoff = Unix (t + - ttl)
        in Some (Ascend_with (collect_expired cutoff maxCount) []
             (bt_Ascend (tree_ops b) (tree b))))"

section \<open>Well-formedness and the map a tree stands for\<close>

definition items_of :: "'t ByteKeyBTree \<Rightarrow> Item list" where
  "items_of b = bt_Ascend (tree_ops b) (tree b)"

definition bkt_invar :: "'t ByteKeyBTree \<Rightarrow> bool" where
  "bkt_invar b \<longleftrightarrow>
     btree_contract (tree_ops b) \<and> ascending (items_of b) \<and> (\<forall>x \<in> set (items_of b). Key x \<noteq> [])"

definition bkt_view :: "'t ByteKeyBTree \<Rightarrow> bytes \<rightharpoonup> Item" where
  "bkt_view b k = find (\<lambda>x. Key x = k) (items_of b)"

text \<open>One call of a method that changes the tree, and a sequence of such calls.\<close>

datatype bkt_op =
    Op_Upsert "Item option"
  | Op_UpsertMany "Item option list"
  | Op_Delete "Item option"
  | Op_DeleteMany "Item option list"
  | Op_Reset
  | Op_Purge_delete "Item list"

fun bkt_step :: "'t ByteKeyBTree \<Rightarrow> bkt_op \<Rightarrow> 't ByteKeyBTree" where
  "bkt_step b (Op_Upsert item) = fst (Upsert b item)"
| "bkt_step b (Op_UpsertMany items) = fst (UpsertMany b items)"
| "bkt_step b (Op_Delete item) = fst (Delete b item)"
| "bkt_step b (Op_DeleteMany items) = fst (DeleteMany b items)"
| "bkt_step b Op_Reset = Reset b"
| "bkt_step b (Op_Purge_delete items) = fst (PurgeExpiredAt_delete b 0 items)"

definition bkt_run :: "'t ByteKeyBTree \<Rightarrow> bkt_op list \<Rightarrow> 't ByteKeyBTree" where
  "bkt_run b ops = foldl bkt_step b ops"

text \<open>A list kept in ascending order obeys the contract of the tree package.\<close>

fun list_put :: "Item list \<Rightarrow> Item \<Rightarrow> Item list" where
  "list_put [] x = [x]"
| "list_put (y # ys) x =
     (if Key x < Key y then x # y # ys else if Key x = Key y then x # ys else y # list_put ys x)"

definition list_tree_ops :: "Item list btree_ops" where
  "list_tree_ops =
     \<lparr>bt_NewWithFreeList = (\<lambda>_ _. []),
      bt_ReplaceOrInsert = (\<lambda>t x. (list_put t x, find (\<lambda>y. Key y = Key x) t)),
      bt_Delete = (\<lambda>t x. (filter (\<lambda>y. Key y \<noteq> Key x) t, find (\<lambda>y. Key y = Key x) t)),
      bt_Get = (\<lambda>t x. find (\<lambda>y. Key y = Key x) t),
      bt_Ascend = (\<lambda>t. t),
      bt_Len = length,
      bt_Clear = (\<lambda>_ _. [])\<rparr>"

text \<open>Concrete items and a concrete tree, used to instantiate the properties.\<close>

definition mk_item :: "bytes \<Rightarrow> int \<Rightarrow> Item" where
  "mk_item k ts = Filter_Item \<lparr>fni_keyBytes = k, fni_timestampUnixSeconds = ts\<rparr>"

definition mk_tree :: "Item list \<Rightarrow> Item list ByteKeyBTree" where
  "mk_tree xs = \<lparr>tree_ops = list_tree_ops, tree = xs\<rparr>"

section \<open>The interface TtlBTree\<close>

text \<open>
  What clients of \<^verbatim>\<open>TtlBTree\<close> rely on: a store of items by key. An item is admissible when the
  store takes it (here, when its key is not empty).
\<close>

locale keyed_store =
  fixes put :: "'b \<Rightarrow> 'v \<Rightarrow> 'b \<times> bool"
    and remove :: "'b \<Rightarrow> 'v \<Rightarrow> 'b \<times> bool"
    and view :: "'b \<Rightarrow> 'k \<rightharpoonup> 'v"
    and key :: "'v \<Rightarrow> 'k"
    and admissible :: "'v \<Rightarrow> bool"
    and invar :: "'b \<Rightarrow> bool"
  assumes put_invar: "invar b \<Longrightarrow> invar (fst (put b x))"
    and remove_invar: "invar b \<Longrightarrow> invar (fst (remove b x))"
    and put_view: "invar b \<Longrightarrow> admissible x \<Longrightarrow> view (fst (put b x)) = (view b)(key x \<mapsto> x)"
    and put_new: "invar b \<Longrightarrow> admissible x \<Longrightarrow> snd (put b x) \<longleftrightarrow> view b (key x) = None"
    and put_refused: "\<not> admissible x \<Longrightarrow> put b x = (b, False)"
    and remove_view: "invar b \<Longrightarrow> admissible x \<Longrightarrow> view (fst (remove b x)) = (view b)(key x := None)"
    and remove_found: "invar b \<Longrightarrow> admissible x \<Longrightarrow> snd (remove b x) \<longleftrightarrow> view b (key x) \<noteq> None"
    and remove_refused: "\<not> admissible x \<Longrightarrow> remove b x = (b, False)"
    and finite_view: "invar b \<Longrightarrow> finite (dom (view b))"
begin

fun put_all :: "'b \<Rightarrow> 'v list \<Rightarrow> 'b \<times> nat" where
  "put_all b [] = (b, 0)"
| "put_all b (x # xs) =
     (let r = put b x; q = put_all (fst r) xs in (fst q, of_bool (snd r) + snd q))"

fun remove_all :: "'b \<Rightarrow> 'v list \<Rightarrow> 'b \<times> nat" where
  "remove_all b [] = (b, 0)"
| "remove_all b (x # xs) =
     (let r = remove b x; q = remove_all (fst r) xs in (fst q, of_bool (snd r) + snd q))"

lemma put_view_any:
  "invar b \<Longrightarrow> view (fst (put b x)) = (if admissible x then (view b)(key x \<mapsto> x) else view b)"
  by (simp add: put_view put_refused)

lemma remove_view_any:
  "invar b \<Longrightarrow>
     view (fst (remove b x)) = (if admissible x then (view b)(key x := None) else view b)"
  by (simp add: remove_view remove_refused)

lemma put_card:
  "invar b \<Longrightarrow> card (dom (view (fst (put b x)))) = card (dom (view b)) + of_bool (snd (put b x))"
  using finite_view [of b]
  by (cases "admissible x") (auto simp: put_view put_new put_refused card_insert_if domIff)

lemma remove_card:
  assumes "invar b"
  shows "card (dom (view (fst (remove b x)))) + of_bool (snd (remove b x)) = card (dom (view b))"
proof (cases "admissible x")
  case True
  have "dom ((view b)(key x := None)) = dom (view b) - {key x}" by auto
  with True assms finite_view [of b] show ?thesis
    by (cases "key x \<in> dom (view b)")
      (auto simp: remove_view remove_found domIff dest: card.remove)
next
  case False
  then show ?thesis by (simp add: remove_refused)
qed

lemma put_all_invar: "invar b \<Longrightarrow> invar (fst (put_all b xs))"
  by (induction xs arbitrary: b) (auto simp: Let_def put_invar)

lemma put_all_view:
  "invar b \<Longrightarrow> view (fst (put_all b xs)) =
     view b ++ map_of (rev (map (\<lambda>x. (key x, x)) (filter admissible xs)))"
  by (induction xs arbitrary: b)
    (auto simp: Let_def put_invar put_view_any put_refused map_add_upd_left map_add_assoc)

lemma put_all_card:
  "invar b \<Longrightarrow> card (dom (view (fst (put_all b xs)))) = card (dom (view b)) + snd (put_all b xs)"
  by (induction xs arbitrary: b) (auto simp: Let_def put_invar put_card)

lemma remove_all_invar: "invar b \<Longrightarrow> invar (fst (remove_all b xs))"
  by (induction xs arbitrary: b) (auto simp: Let_def remove_invar)

lemma remove_all_view:
  "invar b \<Longrightarrow> view (fst (remove_all b xs)) = view b |` (- key ` set (filter admissible xs))"
  by (induction xs arbitrary: b)
    (auto simp: Let_def remove_invar remove_view_any remove_refused restrict_map_def fun_eq_iff)

lemma remove_all_card:
  "invar b \<Longrightarrow> card (dom (view (fst (remove_all b xs)))) + snd (remove_all b xs) = card (dom (view b))"
proof (induction xs arbitrary: b)
  case (Cons x xs)
  then show ?case
    using remove_card [of b x] Cons.IH [of "fst (remove b x)"] by (auto simp: Let_def remove_invar)
qed simp

end

section \<open>Order and contract\<close>

lemma cloneBytes_id [simp]: "cloneBytes src = src"
  by (simp add: cloneBytes_def)

lemma Less_Key: "Less a b \<longleftrightarrow> Key a < Key b"
  by (cases a) (simp_all add: bytes_Compare_less)

lemma equal_items_Key: "equal_items a b \<longleftrightarrow> Key a = Key b"
  by (auto simp: equal_items_def Less_Key)

lemma ascending_keys: "ascending xs \<longleftrightarrow> sorted_wrt (<) (map Key xs)"
  unfolding ascending_def sorted_wrt_map by (simp add: Less_Key [abs_def])

lemma ascending_distinct: "ascending xs \<Longrightarrow> distinct (map Key xs)"
  by (simp add: ascending_keys strict_sorted_iff)

lemma ascending_filter: "ascending xs \<Longrightarrow> ascending (filter P xs)"
  by (simp add: ascending_def sorted_wrt_filter)

lemma ascending_take: "ascending xs \<Longrightarrow> ascending (take n xs)"
  by (simp add: ascending_def sorted_wrt_take)

lemma ascending_unique:
  assumes "ascending xs" and "ascending ys" and "set xs = set ys"
  shows "xs = ys"
proof -
  have k: "map Key xs = map Key ys"
    using assms by (intro strict_sorted_equal) (auto simp: ascending_keys)
  have "inj_on Key (set xs)"
    using ascending_distinct [OF assms(1)] by (simp add: distinct_map)
  with k assms(3) show ?thesis by (metis inj_on_map_eq_map Un_absorb)
qed

lemma find_Key_Some:
  assumes "distinct (map Key xs)"
  shows "find (\<lambda>x. Key x = k) xs = Some x \<longleftrightarrow> x \<in> set xs \<and> Key x = k"
  using assms by (induction xs) (auto simp: image_iff)

lemma find_Key_None: "find (\<lambda>x. Key x = k) xs = None \<longleftrightarrow> k \<notin> Key ` set xs"
  by (auto simp: find_None_iff)

lemma equal_items_abs: "equal_items x = (\<lambda>y. Key y = Key x)"
  by (auto simp: equal_items_Key fun_eq_iff)

lemmas contract_defs =
  btree_contract_def new_contract_def read_contract_def write_contract_def

lemma bkt_Get:
  "bkt_invar b \<Longrightarrow> bt_Get (tree_ops b) (tree b) x = bkt_view b (Key x)"
  by (simp add: bkt_invar_def contract_defs items_of_def bkt_view_def equal_items_abs)

lemma bkt_Len: "bkt_invar b \<Longrightarrow> bt_Len (tree_ops b) (tree b) = length (items_of b)"
  by (simp add: bkt_invar_def contract_defs items_of_def)

lemma bkt_view_Some:
  "bkt_invar b \<Longrightarrow> bkt_view b k = Some x \<longleftrightarrow> x \<in> set (items_of b) \<and> Key x = k"
  by (simp add: bkt_view_def bkt_invar_def find_Key_Some ascending_distinct)

lemma bkt_view_None: "bkt_view b k = None \<longleftrightarrow> k \<notin> Key ` set (items_of b)"
  by (simp add: bkt_view_def find_Key_None)

lemma dom_bkt_view: "dom (bkt_view b) = Key ` set (items_of b)"
  by (rule set_eqI) (metis bkt_view_None domIff)

lemma card_dom_bkt_view: "bkt_invar b \<Longrightarrow> card (dom (bkt_view b)) = length (items_of b)"
  using ascending_distinct [of "items_of b"] distinct_card [of "map Key (items_of b)"]
  by (simp add: dom_bkt_view bkt_invar_def)

lemma bkt_invar_nonempty: "bkt_invar b \<Longrightarrow> bkt_view b [] = None"
  by (auto simp: bkt_view_None bkt_invar_def)

section \<open>Single operations\<close>

lemma bt_ReplaceOrInsertD:
  assumes "btree_contract ops" and "ascending (bt_Ascend ops t)"
    and "bt_ReplaceOrInsert ops t x = (t', old)"
  shows "old = find (\<lambda>y. Key y = Key x) (bt_Ascend ops t)" and "ascending (bt_Ascend ops t')"
    and "set (bt_Ascend ops t') = insert x {y \<in> set (bt_Ascend ops t). Key y \<noteq> Key x}"
proof -
  have "old = find (equal_items x) (bt_Ascend ops t) \<and> ascending (bt_Ascend ops t') \<and>
      set (bt_Ascend ops t') = insert x {y \<in> set (bt_Ascend ops t). \<not> equal_items x y}"
    using assms unfolding btree_contract_def write_contract_def by blast
  note this [unfolded equal_items_abs]
  then show "old = find (\<lambda>y. Key y = Key x) (bt_Ascend ops t)" and "ascending (bt_Ascend ops t')"
    and "set (bt_Ascend ops t') = insert x {y \<in> set (bt_Ascend ops t). Key y \<noteq> Key x}"
    by blast+
qed

lemma bt_DeleteD:
  assumes "btree_contract ops" and "ascending (bt_Ascend ops t)"
    and "bt_Delete ops t x = (t', old)"
  shows "old = find (\<lambda>y. Key y = Key x) (bt_Ascend ops t)" and "ascending (bt_Ascend ops t')"
    and "set (bt_Ascend ops t') = {y \<in> set (bt_Ascend ops t). Key y \<noteq> Key x}"
proof -
  have "old = find (equal_items x) (bt_Ascend ops t) \<and> ascending (bt_Ascend ops t') \<and>
      set (bt_Ascend ops t') = {y \<in> set (bt_Ascend ops t). \<not> equal_items x y}"
    using assms unfolding btree_contract_def write_contract_def by blast
  note this [unfolded equal_items_abs]
  then show "old = find (\<lambda>y. Key y = Key x) (bt_Ascend ops t)" and "ascending (bt_Ascend ops t')"
    and "set (bt_Ascend ops t') = {y \<in> set (bt_Ascend ops t). Key y \<noteq> Key x}"
    by blast+
qed

lemma ReplaceOrInsert_items:
  assumes "bkt_invar b" and "ReplaceOrInsert b x = (b', prev)"
  shows "prev = bkt_view b (Key x)" and "ascending (items_of b')"
    and "set (items_of b') = insert x {y \<in> set (items_of b). Key y \<noteq> Key x}"
    and "tree_ops b' = tree_ops b"
proof -
  obtain t where t: "bt_ReplaceOrInsert (tree_ops b) (tree b) x = (t, prev)" "b' = b\<lparr>tree := t\<rparr>"
    using assms(2) by (auto simp: ReplaceOrInsert_def split: prod.splits)
  from assms(1) have "btree_contract (tree_ops b)" "ascending (bt_Ascend (tree_ops b) (tree b))"
    by (simp_all add: bkt_invar_def items_of_def)
  note d = bt_ReplaceOrInsertD [OF this t(1)]
  show "prev = bkt_view b (Key x)" "ascending (items_of b')" "tree_ops b' = tree_ops b"
    and "set (items_of b') = insert x {y \<in> set (items_of b). Key y \<noteq> Key x}"
    using d t(2) by (simp_all add: bkt_view_def items_of_def)
qed

lemma tree_Delete_items:
  assumes "bkt_invar b" and "tree_Delete b x = (b', prev)"
  shows "prev = bkt_view b (Key x)" and "ascending (items_of b')"
    and "set (items_of b') = {y \<in> set (items_of b). Key y \<noteq> Key x}"
    and "tree_ops b' = tree_ops b"
proof -
  obtain t where t: "bt_Delete (tree_ops b) (tree b) x = (t, prev)" "b' = b\<lparr>tree := t\<rparr>"
    using assms(2) by (auto simp: tree_Delete_def split: prod.splits)
  from assms(1) have "btree_contract (tree_ops b)" "ascending (bt_Ascend (tree_ops b) (tree b))"
    by (simp_all add: bkt_invar_def items_of_def)
  note d = bt_DeleteD [OF this t(1)]
  show "prev = bkt_view b (Key x)" "ascending (items_of b')" "tree_ops b' = tree_ops b"
    and "set (items_of b') = {y \<in> set (items_of b). Key y \<noteq> Key x}"
    using d t(2) by (simp_all add: bkt_view_def items_of_def)
qed

lemma ReplaceOrInsert_invar:
  assumes "bkt_invar b" and "Key x \<noteq> []" and "ReplaceOrInsert b x = (b', prev)"
  shows "bkt_invar b'"
  using assms ReplaceOrInsert_items [OF assms(1,3)] by (auto simp: bkt_invar_def)

lemma tree_Delete_invar:
  assumes "bkt_invar b" and "tree_Delete b x = (b', prev)"
  shows "bkt_invar b'"
  using assms tree_Delete_items [OF assms] by (auto simp: bkt_invar_def)

lemma ReplaceOrInsert_view:
  assumes "bkt_invar b" and "Key x \<noteq> []" and "ReplaceOrInsert b x = (b', prev)"
  shows "bkt_view b' = (bkt_view b)(Key x \<mapsto> x)"
proof
  fix k
  note inv' = ReplaceOrInsert_invar [OF assms]
  note it = ReplaceOrInsert_items [OF assms(1,3)]
  show "bkt_view b' k = ((bkt_view b)(Key x \<mapsto> x)) k"
  proof (cases "k = Key x")
    case True
    then show ?thesis using inv' it(3) by (simp add: bkt_view_Some)
  next
    case False
    then have "bkt_view b' k = Some y \<longleftrightarrow> bkt_view b k = Some y" for y
      using inv' assms(1) it(3) by (auto simp: bkt_view_Some)
    with False show ?thesis by (metis fun_upd_other option.exhaust)
  qed
qed

lemma tree_Delete_view:
  assumes "bkt_invar b" and "tree_Delete b x = (b', prev)"
  shows "bkt_view b' = (bkt_view b)(Key x := None)"
proof
  fix k
  note it = tree_Delete_items [OF assms]
  have "bkt_view b' k = Some y \<longleftrightarrow> k \<noteq> Key x \<and> bkt_view b k = Some y" for y
    using tree_Delete_invar [OF assms] assms(1) it(3) by (auto simp: bkt_view_Some)
  then show "bkt_view b' k = ((bkt_view b)(Key x := None)) k"
    by (metis fun_upd_apply option.exhaust)
qed

lemma tree_Delete_items_list:
  assumes "bkt_invar b" and "tree_Delete b x = (b', prev)"
  shows "items_of b' = filter (\<lambda>y. Key y \<noteq> Key x) (items_of b)"
  using tree_Delete_items [OF assms] assms(1)
  by (intro ascending_unique) (auto simp: bkt_invar_def intro: ascending_filter)

lemma bt_NewD:
  assumes "btree_contract ops"
  shows "0 < degree \<Longrightarrow> bt_Ascend ops (bt_NewWithFreeList ops degree cap) = []"
    and "bt_Ascend ops (bt_Clear ops t keep) = []"
  using assms unfolding btree_contract_def new_contract_def by blast+

lemma NewByteKeyBTree_empty:
  "btree_contract ops \<Longrightarrow>
     bkt_invar (NewByteKeyBTree ops opts) \<and> items_of (NewByteKeyBTree ops opts) = []"
  by (simp add: NewByteKeyBTree_def bkt_invar_def items_of_def bt_NewD ascending_def Let_def)

lemma Reset_empty: "bkt_invar b \<Longrightarrow> bkt_invar (Reset b) \<and> items_of (Reset b) = []"
  by (simp add: Reset_def bkt_invar_def items_of_def bt_NewD ascending_def)

interpretation bkt: keyed_store
  "\<lambda>b x. Upsert b (Some x)" "\<lambda>b x. Delete b (Some x)" bkt_view Key "\<lambda>x. Key x \<noteq> []" bkt_invar
proof
  fix b :: "'t ByteKeyBTree" and x
  assume inv: "bkt_invar b"
  show "bkt_invar (fst (Upsert b (Some x)))"
    using inv by (auto simp: Upsert_def split: prod.splits intro: ReplaceOrInsert_invar)
  show "bkt_invar (fst (Delete b (Some x)))"
    using inv by (auto simp: Delete_def split: prod.splits intro: tree_Delete_invar)
  show "finite (dom (bkt_view b))" by (simp add: dom_bkt_view)
  assume x: "Key x \<noteq> []"
  show "bkt_view (fst (Upsert b (Some x))) = (bkt_view b)(Key x \<mapsto> x)"
    using inv x by (auto simp: Upsert_def split: prod.splits intro!: ReplaceOrInsert_view)
  show "snd (Upsert b (Some x)) \<longleftrightarrow> bkt_view b (Key x) = None"
    using x by (auto simp: Upsert_def split: prod.splits dest!: ReplaceOrInsert_items(1) [OF inv, symmetric])
  show "bkt_view (fst (Delete b (Some x))) = (bkt_view b)(Key x := None)"
    using inv x by (auto simp: Delete_def split: prod.splits intro!: tree_Delete_view)
  show "snd (Delete b (Some x)) \<longleftrightarrow> bkt_view b (Key x) \<noteq> None"
    using x by (auto simp: Delete_def split: prod.splits dest!: tree_Delete_items(1) [OF inv, symmetric])
qed (simp_all add: Upsert_def Delete_def)

section \<open>Compound operations\<close>

lemma UpsertMany_loop_Some:
  "UpsertMany_loop b n (Some x # xs) =
     UpsertMany_loop (fst (Upsert b (Some x))) (n + of_bool (snd (Upsert b (Some x)))) xs"
  by (auto simp: Upsert_def split: prod.splits)

lemma UpsertMany_loop_put_all:
  "UpsertMany_loop b n items =
     (let q = bkt.put_all b (List.map_filter id items) in (fst q, n + snd q))"
proof (induction items arbitrary: b n)
  case Nil
  then show ?case by (simp add: map_filter_def)
next
  case (Cons item items)
  then show ?case
    by (cases item)
      (simp_all add: map_filter_simps UpsertMany_loop_Some Let_def del: UpsertMany_loop.simps(3))
qed

lemma UpsertMany_put_all: "UpsertMany b items = bkt.put_all b (List.map_filter id items)"
  by (cases items) (simp_all add: UpsertMany_def UpsertMany_loop_put_all Let_def map_filter_def)

lemma DeleteMany_loop_Some:
  "DeleteMany_loop b n (Some x # xs) =
     DeleteMany_loop (fst (Delete b (Some x))) (n + of_bool (snd (Delete b (Some x)))) xs"
  by (auto simp: Delete_def split: prod.splits)

lemma DeleteMany_loop_remove_all:
  "DeleteMany_loop b n items =
     (let q = bkt.remove_all b (List.map_filter id items) in (fst q, n + snd q))"
proof (induction items arbitrary: b n)
  case Nil
  then show ?case by (simp add: map_filter_def)
next
  case (Cons item items)
  then show ?case
    by (cases item)
      (simp_all add: map_filter_simps DeleteMany_loop_Some Let_def del: DeleteMany_loop.simps(3))
qed

lemma DeleteMany_remove_all: "DeleteMany b items = bkt.remove_all b (List.map_filter id items)"
  by (cases items) (simp_all add: DeleteMany_def DeleteMany_loop_remove_all Let_def map_filter_def)

lemma Ascend_with_collect:
  assumes "0 < m \<Longrightarrow> int (length out) < m"
  shows "Ascend_with (collect_expired cutoff m) out xs =
     out @ (if 0 < m then take (nat m - length out) else id)
       (filter (\<lambda>x. GetExpirationTime x \<le> cutoff) xs)"
  using assms
proof (induction xs arbitrary: out)
  case (Cons x xs)
  show ?case
  proof (cases "GetExpirationTime x \<le> cutoff")
    case False
    with Cons show ?thesis by (simp add: collect_expired_def)
  next
    case True
    show ?thesis
    proof (cases "0 < m \<and> int (length out + 1) \<ge> m")
      case stop: True
      with Cons.prems have "nat m - length out = Suc 0" by linarith
      with True stop show ?thesis by (simp add: collect_expired_def)
    next
      case go: False
      then have step: "Ascend_with (collect_expired cutoff m) out (x # xs) =
          Ascend_with (collect_expired cutoff m) (out @ [x]) xs"
        using True by (simp add: collect_expired_def)
      have "0 < m \<Longrightarrow> nat m - length out = Suc (nat m - length (out @ [x]))"
        using go by auto
      with step True Cons.IH [of "out @ [x]"] go show ?thesis by auto
    qed
  qed
qed simp

lemma PurgeExpiredAt_delete_invar:
  "bkt_invar b \<Longrightarrow> bkt_invar (fst (PurgeExpiredAt_delete b n xs))"
  by (induction b n xs rule: PurgeExpiredAt_delete.induct)
    (auto split: prod.splits dest: tree_Delete_invar)

lemma PurgeExpiredAt_delete_items:
  "bkt_invar b \<Longrightarrow>
     items_of (fst (PurgeExpiredAt_delete b n xs)) =
       filter (\<lambda>y. Key y \<notin> Key ` set xs) (items_of b)"
proof (induction b n xs rule: PurgeExpiredAt_delete.induct)
  case (2 b n x xs)
  obtain b' prev where d: "tree_Delete b x = (b', prev)" by fastforce
  note inv' = tree_Delete_invar [OF "2.prems" d]
  from "2.IH" [OF d [symmetric] inv'] d tree_Delete_items_list [OF "2.prems" d] show ?case
    by (auto simp: filter_filter intro!: filter_cong)
qed simp

lemma PurgeExpiredAt_delete_count:
  "bkt_invar b \<Longrightarrow> distinct (map Key xs) \<Longrightarrow>
     snd (PurgeExpiredAt_delete b n xs) = n + length (filter (\<lambda>x. bkt_view b (Key x) \<noteq> None) xs)"
proof (induction b n xs rule: PurgeExpiredAt_delete.induct)
  case (2 b n x xs)
  obtain b' prev where d: "tree_Delete b x = (b', prev)" by fastforce
  note inv' = tree_Delete_invar [OF "2.prems"(1) d]
  have "filter (\<lambda>y. bkt_view b' (Key y) \<noteq> None) xs = filter (\<lambda>y. bkt_view b (Key y) \<noteq> None) xs"
    using "2.prems"(2) tree_Delete_view [OF "2.prems"(1) d]
    by (intro filter_cong) (auto simp: image_iff)
  with "2.IH" [OF d [symmetric] inv'] d tree_Delete_items(1) [OF "2.prems"(1) d] "2.prems"(2)
  show ?case by auto
qed simp

lemma Upsert_invar: "bkt_invar b \<Longrightarrow> bkt_invar (fst (Upsert b item))"
  by (cases item) (simp add: Upsert_def, use bkt.put_invar in simp)

lemma Delete_invar: "bkt_invar b \<Longrightarrow> bkt_invar (fst (Delete b item))"
  by (cases item) (simp add: Delete_def, use bkt.remove_invar in simp)

lemma bkt_step_invar: "bkt_invar b \<Longrightarrow> bkt_invar (bkt_step b c)"
  by (cases c) (simp_all add: Upsert_invar Delete_invar Reset_empty PurgeExpiredAt_delete_invar
      UpsertMany_put_all DeleteMany_remove_all bkt.put_all_invar bkt.remove_all_invar)

lemma bkt_run_invar: "bkt_invar b \<Longrightarrow> bkt_invar (bkt_run b ops)"
  unfolding bkt_run_def by (induction ops arbitrary: b) (simp_all add: bkt_step_invar)

lemma Size_items: "bkt_invar b \<Longrightarrow> Size b = length (items_of b)"
  by (simp add: Size_def bkt_Len)

lemma GetNodeItem_view:
  "bkt_invar b \<Longrightarrow> GetNodeItem b (Some p) = bkt_view b (Key p)"
  by (simp add: GetNodeItem_def bkt_Get bkt_invar_nonempty)

lemma Ascend_with_record:
  "Ascend_with (\<lambda>vs x. (vs @ [f x], go x)) vs xs =
     vs @ map f (takeWhile go xs @ take 1 (dropWhile go xs))"
  by (induction xs arbitrary: vs) auto

section \<open>The sorted list as a tree\<close>

lemma set_list_put:
  "sorted_wrt (<) (map Key t) \<Longrightarrow> set (list_put t x) = insert x {y \<in> set t. Key y \<noteq> Key x}"
  by (induction t) auto

lemma ascending_list_put: "sorted_wrt (<) (map Key t) \<Longrightarrow> sorted_wrt (<) (map Key (list_put t x))"
  by (induction t) (auto simp: set_list_put)

lemma list_tree_contract: "btree_contract list_tree_ops"
  unfolding btree_contract_def new_contract_def read_contract_def write_contract_def
  by (simp add: list_tree_ops_def equal_items_abs ascending_filter
      ascending_list_put [folded ascending_keys] set_list_put [folded ascending_keys])

lemma mk_tree_items [simp]: "items_of (mk_tree xs) = xs"
  by (simp add: items_of_def mk_tree_def list_tree_ops_def)

lemma mk_tree_invar:
  "bkt_invar (mk_tree xs) \<longleftrightarrow> sorted_wrt (<) (map Key xs) \<and> (\<forall>x \<in> set xs. Key x \<noteq> [])"
  by (simp add: bkt_invar_def list_tree_contract ascending_keys) (simp add: mk_tree_def list_tree_contract)

lemma mk_item_sel [simp]: "Key (mk_item k ts) = k" "GetExpirationTime (mk_item k ts) = ts"
  by (simp_all add: mk_item_def)

section \<open>Properties\<close>

text \<open>
  C23. After \<^verbatim>\<open>Upsert\<close> of an item with a non-empty key the tree is well formed, a lookup of any item
  with that key finds exactly the item put in and every other lookup is unchanged; the result tells
  whether the key was new, and the size grows by one exactly then.
\<close>

theorem Upsert_spec:
  assumes "bkt_invar b" and "Key x \<noteq> []" and "Upsert b (Some x) = (b', isNew)"
  shows "bkt_invar b' \<and> (isNew \<longleftrightarrow> \<not> Has b (Some x)) \<and>
    (\<forall>p. GetNodeItem b' (Some p) = (if Key p = Key x then Some x else GetNodeItem b (Some p))) \<and>
    Size b' = Size b + of_bool isNew"
proof -
  have b': "b' = fst (Upsert b (Some x))" and n: "isNew = snd (Upsert b (Some x))"
    using assms(3) by simp_all
  have inv': "bkt_invar b'" using b' assms(1) by (simp add: bkt.put_invar)
  moreover have "isNew \<longleftrightarrow> \<not> Has b (Some x)"
    using n assms(1,2) by (simp add: bkt.put_new Has_def bkt_Get)
  moreover have "bkt_view b' = (bkt_view b)(Key x \<mapsto> x)"
    using b' assms(1,2) by (simp add: bkt.put_view)
  moreover have "Size b' = Size b + of_bool isNew"
    using bkt.put_card [OF assms(1), of x] inv' assms(1) b' n
    by (simp add: Size_items card_dom_bkt_view)
  ultimately show ?thesis using inv' assms(1) by (simp add: GetNodeItem_view)
qed

theorem Upsert_spec_witness:
  "GetNodeItem (fst (Upsert (mk_tree [mk_item [1] 5]) (Some (mk_item [2] 7)))) (Some (mk_item [2] 0))
     = Some (mk_item [2] 7) \<and> snd (Upsert (mk_tree [mk_item [1] 5]) (Some (mk_item [2] 7)))"
proof -
  have inv: "bkt_invar (mk_tree [mk_item [1] 5])" by (simp add: mk_tree_invar)
  have "\<not> Has (mk_tree [mk_item [1] 5]) (Some (mk_item [2] 7))"
    by (simp add: Has_def mk_tree_def list_tree_ops_def)
  with Upsert_spec [OF inv _ surjective_pairing, of "mk_item [2] 7"] show ?thesis by simp
qed

text \<open>
  \<^verbatim>\<open>UpsertMany\<close> ignores nil items and empty keys, the last item given for a key wins, and the
  returned number is the number of keys that were not there before: the size grows by it.
\<close>

theorem UpsertMany_spec:
  assumes "bkt_invar b" and "UpsertMany b items = (b', added)"
  shows "bkt_invar b' \<and> Size b' = Size b + added \<and>
    (\<forall>p. GetNodeItem b' (Some p) =
      (case find (\<lambda>x. Key x = Key p \<and> Key x \<noteq> []) (rev (List.map_filter id items)) of
         Some x \<Rightarrow> Some x | None \<Rightarrow> GetNodeItem b (Some p)))"
proof -
  let ?xs = "List.map_filter id items"
  have b': "b' = fst (bkt.put_all b ?xs)" and n: "added = snd (bkt.put_all b ?xs)"
    using assms(2) by (simp_all add: UpsertMany_put_all)
  have inv': "bkt_invar b'" using b' assms(1) by (simp add: bkt.put_all_invar)
  moreover have "Size b' = Size b + added"
    using bkt.put_all_card [OF assms(1), of ?xs] inv' assms(1) b' n
    by (simp add: Size_items card_dom_bkt_view)
  moreover have "map_of (map (\<lambda>x. (Key x, x)) (filter (\<lambda>x. Key x \<noteq> []) zs)) k =
      find (\<lambda>x. Key x = k \<and> Key x \<noteq> []) zs" for k zs
    by (induction zs) auto
  ultimately show ?thesis
    using bkt.put_all_view [OF assms(1), of ?xs] inv' assms(1) b'
    by (simp add: GetNodeItem_view map_add_def rev_map rev_filter split: option.split)
qed

theorem UpsertMany_spec_witness:
  "Size (fst (UpsertMany (mk_tree [mk_item [1] 5])
     [None, Some (mk_item [2] 7), Some (mk_item [] 9), Some (mk_item [1] 8)])) = 2"
proof -
  have inv: "bkt_invar (mk_tree [mk_item [1] 5])" by (simp add: mk_tree_invar)
  show ?thesis
    using UpsertMany_spec [OF inv surjective_pairing,
        of "[None, Some (mk_item [2] 7), Some (mk_item [] 9), Some (mk_item [1] 8)]"]
    by (simp add: Size_def UpsertMany_def ReplaceOrInsert_def mk_tree_def list_tree_ops_def)
qed

text \<open>
  \<^verbatim>\<open>DeleteMany\<close> removes exactly the keys of the given items and returns how many of them were
  there: the size shrinks by it.
\<close>

theorem DeleteMany_spec:
  assumes "bkt_invar b" and "DeleteMany b items = (b', deleted)"
  shows "bkt_invar b' \<and> Size b' + deleted = Size b \<and>
    (\<forall>p. GetNodeItem b' (Some p) =
      (if Key p \<in> Key ` set (List.map_filter id items) then None else GetNodeItem b (Some p)))"
proof -
  let ?xs = "List.map_filter id items"
  have b': "b' = fst (bkt.remove_all b ?xs)" and n: "deleted = snd (bkt.remove_all b ?xs)"
    using assms(2) by (simp_all add: DeleteMany_remove_all)
  have inv': "bkt_invar b'" using b' assms(1) by (simp add: bkt.remove_all_invar)
  moreover have "Size b' + deleted = Size b"
    using bkt.remove_all_card [OF assms(1), of ?xs] inv' assms(1) b' n
    by (simp add: Size_items card_dom_bkt_view)
  ultimately show ?thesis
    using bkt.remove_all_view [OF assms(1), of ?xs] inv' assms(1) b' bkt_invar_nonempty [OF assms(1)]
    by (auto simp: GetNodeItem_view restrict_map_def)
qed

theorem DeleteMany_spec_witness:
  "Size (fst (DeleteMany (mk_tree [mk_item [1] 5, mk_item [3] 6])
     [Some (mk_item [3] 0), Some (mk_item [4] 0)])) = 1"
proof -
  have inv: "bkt_invar (mk_tree [mk_item [1] 5, mk_item [3] 6])" by (simp add: mk_tree_invar)
  show ?thesis
    using DeleteMany_spec [OF inv surjective_pairing, of "[Some (mk_item [3] 0), Some (mk_item [4] 0)]"]
    by (simp add: Size_def DeleteMany_def tree_Delete_def mk_tree_def list_tree_ops_def)
qed

text \<open>
  \<^verbatim>\<open>ListExpiredAt\<close> with a positive \<open>ttl\<close> lists, in key order, the items whose last write is at or
  before \<open>now - ttl\<close> (the boundary included), all of them when the limit is not positive and the
  first \<open>maxCount\<close> otherwise; with a non-positive \<open>ttl\<close> it returns nil.
\<close>

theorem ListExpiredAt_spec:
  "ListExpiredAt b t ttl maxCount =
     (if ttl \<le> 0 then None
      else Some ((if 0 < maxCount then take (nat maxCount) else id)
        (filter (\<lambda>x. GetExpirationTime x \<le> Unix (t - ttl)) (items_of b))))"
  using Ascend_with_collect [of maxCount "[]" "Unix (t - ttl)" "items_of b"]
  by (simp add: ListExpiredAt_def items_of_def)

text \<open>
  C15. Run without interference, \<^verbatim>\<open>PurgeExpiredAt\<close> deletes exactly the items \<^verbatim>\<open>ListExpiredAt\<close> lists,
  keeps every other item, keeps the tree well formed and returns how many it deleted; without a
  limit no expired item is left.
\<close>

theorem PurgeExpiredAt_spec:
  assumes "bkt_invar b" and "0 < ttl" and "ListExpiredAt b t ttl m = Some xs"
    and "PurgeExpiredAt b t ttl m = (b', n)"
  shows "bkt_invar b' \<and> items_of b' = filter (\<lambda>x. x \<notin> set xs) (items_of b) \<and> n = length xs \<and>
    (m \<le> 0 \<longrightarrow> (\<forall>x \<in> set (items_of b'). Unix (t - ttl) < GetExpirationTime x))"
proof -
  have col: "PurgeExpiredAt_collect b t ttl m = xs"
    using assms(2,3) by (simp add: PurgeExpiredAt_collect_def ListExpiredAt_def Let_def)
  have r: "(b', n) = PurgeExpiredAt_delete b 0 xs"
    using assms(2,4) col by (cases xs) (simp_all add: PurgeExpiredAt_def Let_def)
  have xs: "xs = (if 0 < m then take (nat m) else id)
      (filter (\<lambda>x. GetExpirationTime x \<le> Unix (t - ttl)) (items_of b))"
    using assms(2,3) Ascend_with_collect [of m "[]" "Unix (t - ttl)" "items_of b"]
    by (simp add: ListExpiredAt_def items_of_def)
  have asc: "ascending (items_of b)" using assms(1) by (simp add: bkt_invar_def)
  have "set xs \<subseteq> set (items_of b)" using xs by (auto dest: in_set_takeD)
  have "distinct (map Key xs)"
    using asc xs by (auto intro!: ascending_distinct ascending_filter ascending_take)
  have inj: "inj_on Key (set (items_of b))"
    using ascending_distinct [OF asc] by (simp add: distinct_map)
  have "items_of b' = filter (\<lambda>y. Key y \<notin> Key ` set xs) (items_of b)"
    using PurgeExpiredAt_delete_items [OF assms(1), of 0 xs] r by (metis fst_conv)
  also have "\<dots> = filter (\<lambda>x. x \<notin> set xs) (items_of b)"
    using inj \<open>set xs \<subseteq> set (items_of b)\<close> by (intro filter_cong) (auto simp: inj_on_def)
  finally have items: "items_of b' = filter (\<lambda>x. x \<notin> set xs) (items_of b)" .
  have "filter (\<lambda>x. bkt_view b (Key x) \<noteq> None) xs = xs"
    using \<open>set xs \<subseteq> set (items_of b)\<close> by (auto simp: filter_id_conv bkt_view_None simp del: not_None_eq)
  then have "n = length xs"
    using PurgeExpiredAt_delete_count [OF assms(1) \<open>distinct (map Key xs)\<close>, of 0] r by (metis add_0 snd_conv)
  moreover have "bkt_invar b'"
    using PurgeExpiredAt_delete_invar [OF assms(1), of 0 xs] r by (metis fst_conv)
  ultimately show ?thesis using items xs by auto
qed

theorem PurgeExpiredAt_spec_witness:
  "items_of (fst (PurgeExpiredAt (mk_tree [mk_item [1] 5, mk_item [2] 50]) (30 * Second) (10 * Second) 0))
     = [mk_item [2] 50]"
proof -
  let ?b = "mk_tree [mk_item [1] 5, mk_item [2] 50]"
  have inv: "bkt_invar ?b" by (simp add: mk_tree_invar)
  have l: "ListExpiredAt ?b (30 * Second) (10 * Second) 0 = Some [mk_item [1] 5]"
    by (simp add: ListExpiredAt_def collect_expired_def Unix_def Second_def mk_tree_def list_tree_ops_def)
  have "(0::int) < 10 * Second" by simp
  from PurgeExpiredAt_spec [OF inv this l surjective_pairing] show ?thesis
    by (simp add: mk_item_def)
qed

text \<open>
  C39. The two critical sections of \<^verbatim>\<open>PurgeExpiredAt\<close> are not atomic together: when another goroutine
  refreshes a collected key between them, the fresh item is deleted although its last write is
  after \<open>now - ttl\<close>.
\<close>

theorem PurgeExpiredAt_deletes_refreshed:
  assumes "bkt_invar b" and "old \<in> set (PurgeExpiredAt_collect b t ttl m)"
    and "Key fresh = Key old" and "Unix (t - ttl) < GetExpirationTime fresh"
  shows "GetNodeItem (fst (Upsert b (Some fresh))) (Some fresh) = Some fresh \<and>
    GetNodeItem (fst (PurgeExpiredAt_delete (fst (Upsert b (Some fresh))) 0
      (PurgeExpiredAt_collect b t ttl m))) (Some fresh) = None"
proof -
  let ?xs = "PurgeExpiredAt_collect b t ttl m" and ?b1 = "fst (Upsert b (Some fresh))"
  have "set ?xs \<subseteq> set (items_of b)"
    using Ascend_with_collect [of m "[]" "Unix (t - ttl)" "items_of b"]
    by (auto simp: PurgeExpiredAt_collect_def items_of_def dest: in_set_takeD)
  with assms have ne: "Key fresh \<noteq> []" by (auto simp: bkt_invar_def)
  have inv1: "bkt_invar ?b1" using assms(1) by (rule Upsert_invar)
  have v: "bkt_view ?b1 (Key fresh) = Some fresh" using assms(1) ne by (simp add: bkt.put_view)
  have "Key fresh \<in> Key ` set ?xs" using assms(2,3) by (metis image_eqI)
  then have "Key fresh \<notin> Key ` set (items_of (fst (PurgeExpiredAt_delete ?b1 0 ?xs)))"
    by (auto simp: PurgeExpiredAt_delete_items [OF inv1])
  then show ?thesis
    using v inv1 by (simp add: GetNodeItem_view PurgeExpiredAt_delete_invar bkt_view_None)
qed

theorem PurgeExpiredAt_deletes_refreshed_witness:
  "GetNodeItem (fst (PurgeExpiredAt_delete
      (fst (Upsert (mk_tree [mk_item [1] 5]) (Some (mk_item [1] 29)))) 0
      (PurgeExpiredAt_collect (mk_tree [mk_item [1] 5]) (30 * Second) (10 * Second) 0)))
    (Some (mk_item [1] 29)) = None"
proof -
  let ?b = "mk_tree [mk_item [1] 5]"
  have inv: "bkt_invar ?b" by (simp add: mk_tree_invar)
  have m: "mk_item [1] 5 \<in> set (PurgeExpiredAt_collect ?b (30 * Second) (10 * Second) 0)"
    by (simp add: PurgeExpiredAt_collect_def collect_expired_def Unix_def Second_def mk_tree_def
        list_tree_ops_def)
  have "Unix (30 * Second - 10 * Second) < GetExpirationTime (mk_item [1] 29)"
    by (simp add: Unix_def Second_def)
  with PurgeExpiredAt_deletes_refreshed [OF inv m, of "mk_item [1] 29"] show ?thesis by simp
qed

text \<open>
  \<^verbatim>\<open>ForEach\<close> calls its callback on the items in strictly ascending key order, up to and including
  the first one on which the callback returns false; a nil callback is an error and visits nothing.
\<close>

theorem ForEach_spec:
  assumes "bkt_invar b"
  shows "ForEach b (Some (\<lambda>vs k ts. (vs @ [(k, ts)], go k ts))) [] =
      Inr (let f = (\<lambda>x. (Key x, GetExpirationTime x)); g = (\<lambda>x. go (Key x) (GetExpirationTime x))
           in map f (takeWhile g (items_of b) @ take 1 (dropWhile g (items_of b))))
    \<and> sorted_wrt (<) (map Key (items_of b))
    \<and> ForEach b None s = Inl ''nil callback''"
  using Ascend_with_record [of "\<lambda>x. (Key x, GetExpirationTime x)" "\<lambda>x. go (Key x) (GetExpirationTime x)"
      "[]" "items_of b"] assms
  by (simp add: ForEach_def items_of_def [symmetric] Let_def bkt_invar_def ascending_keys)

theorem ForEach_spec_witness:
  "ForEach (mk_tree [mk_item [1] 5, mk_item [2] 6, mk_item [3] 7])
     (Some (\<lambda>vs k ts. (vs @ [(k, ts)], ts < 6))) [] = Inr [([1], 5), ([2], 6)]"
proof -
  have "bkt_invar (mk_tree [mk_item [1] 5, mk_item [2] 6, mk_item [3] 7])"
    by (simp add: mk_tree_invar)
  from ForEach_spec [OF this, of "\<lambda>k ts. ts < 6" "()"] show ?thesis by simp
qed



end
