(* ===== verification/Kernel_Shutdown.thy ===== *)
theory Kernel_Shutdown
  imports Utils
begin

text \<open>
  The shutdown hooks of \<^verbatim>\<open>kernel/kernel.go\<close>: the singly linked list \<^verbatim>\<open>linkedList\<close> of \<^verbatim>\<open>shutdown\<close>
  nodes, \<^verbatim>\<open>RegisterShutdown\<close> and \<^verbatim>\<open>shutdownAllAndDeleteAllCanceled\<close>. Nodes live in an explicit heap
  and are linked by addresses, as the pointers of the source; a loop along the links is a
  \<^theory_text>\<open>partial_function\<close>, so that a cyclic list would be a loop that does not return. Both methods
  hold \<^verbatim>\<open>shutdownRWM\<close> for their whole body, so each is one step.

  The heap refines a plain list of hooks kept in stable priority order. A hook is the body of a
  goroutine-free call: it changes the world \<open>'w\<close> and may panic; \<open>None\<close> is a nil function.
\<close>

section \<open>Priorities\<close>

definition LowestPriority :: int where "LowestPriority = 10000"
definition LowPriority :: int where "LowPriority = 1000"
definition MediumPriority :: int where "MediumPriority = 500"
definition HighPriority :: int where "HighPriority = 100"
definition HighestPriority :: int where "HighestPriority = 50"
definition CriticalPriority :: int where "CriticalPriority = 20"
definition ImmediatePriority :: int where "ImmediatePriority = 1"

section \<open>The linked list\<close>

record 'w shutdown =
  sd_priority :: int
  sd_name :: string
  sd_next :: "nat option"
  sd_shutdownFunc :: "'w body option"

type_synonym 'w sd_heap = "nat \<rightharpoonup> 'w shutdown"

record 'w linkedList =
  ll_node :: "nat option"
  ll_heap :: "'w sd_heap"
  ll_fresh :: nat

definition new_linkedList :: "'w linkedList" where
  "new_linkedList = \<lparr>ll_node = None, ll_heap = Map.empty, ll_fresh = 0\<rparr>"

text \<open>The loop that walks to the last node whose successor must come after the new one.\<close>

partial_function (option) walk :: "'w sd_heap \<Rightarrow> int \<Rightarrow> nat \<Rightarrow> nat option" where
  "walk h priority current =
     (case h current of None \<Rightarrow> None
      | Some c \<Rightarrow>
          (case sd_next c of None \<Rightarrow> Some current
           | Some nxt \<Rightarrow>
               (case h nxt of None \<Rightarrow> None
                | Some n \<Rightarrow>
                    if sd_priority n \<le> priority then walk h priority nxt else Some current)))"

definition RegisterShutdown ::
    "'w linkedList \<Rightarrow> string \<Rightarrow> 'w body option \<Rightarrow> int \<Rightarrow> 'w linkedList option" where
  "RegisterShutdown l name fn priority =
     (let a = ll_fresh l;
          newShutdown = \<lparr>sd_priority = priority, sd_name = name, sd_next = None,
                         sd_shutdownFunc = fn\<rparr>;
          prepend = Some (l\<lparr>ll_node := Some a,
                            ll_heap := (ll_heap l)(a \<mapsto> newShutdown\<lparr>sd_next := ll_node l\<rparr>),
                            ll_fresh := a + 1\<rparr>)
      in case ll_node l of
           None \<Rightarrow> prepend
         | Some p \<Rightarrow>
             (case ll_heap l p of
                None \<Rightarrow> None
              | Some first \<Rightarrow>
                  if sd_priority first > priority then prepend
                  else
                    (case walk (ll_heap l) priority p of
                       None \<Rightarrow> None
                     | Some current \<Rightarrow>
                         (case ll_heap l current of
                            None \<Rightarrow> None
                          | Some c \<Rightarrow>
                              Some (l\<lparr>ll_heap := (ll_heap l)
                                        (a \<mapsto> newShutdown\<lparr>sd_next := sd_next c\<rparr>,
                                         current \<mapsto> c\<lparr>sd_next := Some a\<rparr>),
                                      ll_fresh := a + 1\<rparr>)))))"

text \<open>Calling a hook: a nil function panics.\<close>

definition call_hook :: "'w body option \<Rightarrow> 'w body" where
  "call_hook fn w =
     (case fn of None \<Rightarrow> (w, Some ''invalid memory address or nil pointer dereference'')
      | Some f \<Rightarrow> f w)"

text \<open>
  The loop of \<^verbatim>\<open>shutdownAllAndDeleteAllCanceled\<close>: \<open>node\<close> is the head pointer, \<open>names\<close> the names of the
  executed hooks (the log). The node of a panicking hook stays at the head, because the panic
  leaves the loop before the pointer moves.
\<close>

partial_function (option) shutdown_loop ::
    "'w sd_heap \<Rightarrow> nat option \<Rightarrow> 'w \<Rightarrow> string list
       \<Rightarrow> (nat option \<times> 'w \<times> string list \<times> string option) option" where
  "shutdown_loop h node w names =
     (case node of None \<Rightarrow> Some (None, w, names, None)
      | Some a \<Rightarrow>
          (case h a of None \<Rightarrow> None
           | Some n \<Rightarrow>
               (case call_hook (sd_shutdownFunc n) w of
                  (w', Some r) \<Rightarrow> Some (Some a, w', names, Some r)
                | (w', None) \<Rightarrow> shutdown_loop h (sd_next n) w' (names @ [sd_name n]))))"

definition shutdownAllAndDeleteAllCanceled ::
    "'w linkedList \<Rightarrow> 'w \<Rightarrow> ('w linkedList \<times> 'w \<times> string list \<times> string option) option" where
  "shutdownAllAndDeleteAllCanceled l w =
     map_option (\<lambda>(node, w', names, p). (l\<lparr>ll_node := node\<rparr>, w', names, p))
       (shutdown_loop (ll_heap l) (ll_node l) w [])"

section \<open>The list of hooks the heap stands for\<close>

record 'w hook =
  hk_priority :: int
  hk_name :: string
  hk_func :: "'w body option"

definition hook_of :: "'w shutdown \<Rightarrow> 'w hook" where
  "hook_of n = \<lparr>hk_priority = sd_priority n, hk_name = sd_name n, hk_func = sd_shutdownFunc n\<rparr>"

fun path :: "'w sd_heap \<Rightarrow> nat option \<Rightarrow> nat list \<Rightarrow> bool" where
  "path h p [] \<longleftrightarrow> p = None"
| "path h p (a # as) \<longleftrightarrow>
     p = Some a \<and> (case h a of None \<Rightarrow> False | Some n \<Rightarrow> path h (sd_next n) as)"

definition hooks_at :: "'w sd_heap \<Rightarrow> nat list \<Rightarrow> 'w hook list" where
  "hooks_at h as = map (\<lambda>a. hook_of (the (h a))) as"

definition hooks_rel :: "'w linkedList \<Rightarrow> 'w hook list \<Rightarrow> bool" where
  "hooks_rel l hs \<longleftrightarrow>
     (\<exists>as. path (ll_heap l) (ll_node l) as \<and> distinct as \<and> hs = hooks_at (ll_heap l) as \<and>
           sorted (map hk_priority hs)) \<and>
     (\<forall>a. ll_fresh l \<le> a \<longrightarrow> ll_heap l a = None)"

text \<open>The abstract operation: running hooks until one panics.\<close>

fun run_hooks :: "'w hook list \<Rightarrow> 'w \<Rightarrow> string list \<Rightarrow> 'w hook list \<times> 'w \<times> string list \<times> string option"
where
  "run_hooks [] w names = ([], w, names, None)"
| "run_hooks (x # hs) w names =
     (case call_hook (hk_func x) w of
        (w', Some r) \<Rightarrow> (x # hs, w', names, Some r)
      | (w', None) \<Rightarrow> run_hooks hs w' (names @ [hk_name x]))"

text \<open>Registering one hook, and a sequence of hooks, first to last.\<close>

definition register_hook :: "'w linkedList \<Rightarrow> 'w hook \<Rightarrow> 'w linkedList option" where
  "register_hook l x = RegisterShutdown l (hk_name x) (hk_func x) (hk_priority x)"

fun register_all :: "'w linkedList \<Rightarrow> 'w hook list \<Rightarrow> 'w linkedList option" where
  "register_all l [] = Some l"
| "register_all l (x # xs) =
     (case register_hook l x of None \<Rightarrow> None | Some l' \<Rightarrow> register_all l' xs)"

section \<open>Paths in the heap\<close>

lemma path_dom: "path h p as \<Longrightarrow> set as \<subseteq> dom h"
  by (induction as arbitrary: p) (auto split: option.splits)

lemma path_upd_fresh: "a \<notin> set as \<Longrightarrow> path (h(a \<mapsto> n)) p as = path h p as"
  by (induction as arbitrary: p) (auto split: option.splits)

lemma hooks_at_upd_fresh: "a \<notin> set as \<Longrightarrow> hooks_at (h(a \<mapsto> n)) as = hooks_at h as"
  by (auto simp: hooks_at_def)

lemma path_insert_after:
  assumes "path h p (bs @ c # cs)" and "distinct (bs @ c # cs)" and "a \<notin> set (bs @ c # cs)"
    and "h c = Some n" and "sd_next x = sd_next n"
  shows "path (h(a \<mapsto> x, c \<mapsto> n\<lparr>sd_next := Some a\<rparr>)) p (bs @ c # a # cs)"
  using assms
proof (induction bs arbitrary: p)
  case Nil
  define h' where "h' = h(a \<mapsto> x, c \<mapsto> n\<lparr>sd_next := Some a\<rparr>)"
  have "path h' (sd_next n) cs" "h' c = Some (n\<lparr>sd_next := Some a\<rparr>)" "h' a = Some x"
    using Nil.prems by (simp_all add: h'_def path_upd_fresh del: fun_upd_apply) auto
  with Nil.prems show ?case unfolding h'_def [symmetric] by simp
next
  case (Cons b bs)
  then show ?case by (auto split: option.splits)
qed

lemma hooks_at_insert_after:
  assumes "distinct (bs @ c # cs)" and "a \<notin> set (bs @ c # cs)" and "h c = Some n"
  shows "hooks_at (h(a \<mapsto> x, c \<mapsto> n\<lparr>sd_next := Some a\<rparr>)) (bs @ c # a # cs) =
    hooks_at h (bs @ [c]) @ hook_of x # hooks_at h cs"
  using assms by (auto simp: hooks_at_def hook_of_def)

text \<open>The walk returns the last node of the path whose priority does not exceed the new one.\<close>

lemma walk_path:
  assumes "path h (Some a) (a # as)" and "sd_priority (the (h a)) \<le> priority"
  shows "\<exists>bs c cs. a # as = bs @ c # cs \<and> walk h priority a = Some c \<and>
    hooks_at h (bs @ [c]) = takeWhile (\<lambda>y. hk_priority y \<le> priority) (hooks_at h (a # as)) \<and>
    hooks_at h cs = dropWhile (\<lambda>y. hk_priority y \<le> priority) (hooks_at h (a # as))"
  using assms
proof (induction as arbitrary: a)
  case Nil
  then obtain n where "h a = Some n" "sd_next n = None" by (auto split: option.splits)
  then have "walk h priority a = Some a" by (simp add: walk.simps)
  with Nil.prems show ?case
    by (intro exI [of _ "[]"] exI [of _ a]) (simp add: hooks_at_def hook_of_def)
next
  case (Cons b as)
  then obtain n where n: "h a = Some n" "sd_next n = Some b" and p: "path h (Some b) (b # as)"
    by (auto split: option.splits)
  then obtain m where m: "h b = Some m" by (auto split: option.splits)
  show ?case
  proof (cases "sd_priority m \<le> priority")
    case True
    then have "walk h priority a = walk h priority b"
      using n m by (subst walk.simps) simp
    moreover obtain bs c cs where "b # as = bs @ c # cs" "walk h priority b = Some c"
      "hooks_at h (bs @ [c]) = takeWhile (\<lambda>y. hk_priority y \<le> priority) (hooks_at h (b # as))"
      "hooks_at h cs = dropWhile (\<lambda>y. hk_priority y \<le> priority) (hooks_at h (b # as))"
      using Cons.IH [OF p] True m by auto
    ultimately show ?thesis
      using Cons.prems(2) n
      by (intro exI [of _ "a # bs"] exI [of _ c] exI [of _ cs]) (simp add: hooks_at_def hook_of_def)
  next
    case False
    then have "walk h priority a = Some a"
      using n m by (subst walk.simps) simp
    with False Cons.prems(2) n m show ?thesis
      by (intro exI [of _ "[]"] exI [of _ a] exI [of _ "b # as"])
        (simp add: hooks_at_def hook_of_def)
  qed
qed

section \<open>Refinement\<close>

text \<open>The new node at address \<open>a\<close>, in front of the list or behind node \<open>c\<close>.\<close>

lemma front_refines:
  assumes "path h p as" and "distinct as" and "a \<notin> set as" and "sorted (map hk_priority (hooks_at h as))"
    and "\<forall>b. a \<le> b \<longrightarrow> h b = None" and "takeWhile (\<lambda>y. hk_priority y \<le> sd_priority x) (hooks_at h as) = []"
    and "sd_next x = p"
  shows "hooks_rel (l\<lparr>ll_node := Some a, ll_heap := h(a \<mapsto> x), ll_fresh := a + 1\<rparr>)
    (stable_insert hk_priority (hook_of x) (hooks_at h as))"
proof -
  have "dropWhile (\<lambda>y. hk_priority y \<le> sd_priority x) (hooks_at h as) = hooks_at h as"
    using assms(6) by (cases "hooks_at h as") (auto split: if_splits)
  then have "stable_insert hk_priority (hook_of x) (hooks_at h as) = hooks_at (h(a \<mapsto> x)) (a # as)"
    using assms(3,6) by (simp add: stable_insert_def hooks_at_def hook_of_def)
  with assms sorted_stable_insert [OF assms(4), of "hook_of x"] show ?thesis
    by (auto simp: hooks_rel_def path_upd_fresh intro!: exI [of _ "a # as"])
qed

lemma after_refines:
  assumes "path h (ll_node l) (bs @ c # cs)" and "distinct (bs @ c # cs)" and "a \<notin> set (bs @ c # cs)"
    and "sorted (map hk_priority hs)" and "\<forall>b. a \<le> b \<longrightarrow> h b = None" and "h c = Some n" and "sd_next x = sd_next n"
    and "hooks_at h (bs @ [c]) = takeWhile (\<lambda>y. hk_priority y \<le> sd_priority x) hs"
    and "hooks_at h cs = dropWhile (\<lambda>y. hk_priority y \<le> sd_priority x) hs"
  shows "hooks_rel (l\<lparr>ll_heap := h(a \<mapsto> x, c \<mapsto> n\<lparr>sd_next := Some a\<rparr>), ll_fresh := a + 1\<rparr>)
    (stable_insert hk_priority (hook_of x) hs)"
proof -
  let ?h = "h(a \<mapsto> x, c \<mapsto> n\<lparr>sd_next := Some a\<rparr>)"
  have "path ?h (ll_node l) (bs @ c # a # cs)" by (rule path_insert_after) (use assms in auto)
  moreover have "stable_insert hk_priority (hook_of x) hs = hooks_at ?h (bs @ c # a # cs)"
    using hooks_at_insert_after [of bs c cs a h n x] assms(2,3,6,8,9) by (simp add: stable_insert_def hook_of_def)
  moreover have "distinct (bs @ c # a # cs)" and "\<forall>b. a + 1 \<le> b \<longrightarrow> ?h b = None" using assms(2,3,5,6) by auto
  ultimately show ?thesis
    using sorted_stable_insert [OF assms(4), of "hook_of x"]
    unfolding hooks_rel_def by (intro conjI exI [of _ "bs @ c # a # cs"]) simp_all
qed

lemma RegisterShutdown_refines:
  assumes "hooks_rel l hs"
  shows "\<exists>l'. RegisterShutdown l name fn priority = Some l' \<and>
    hooks_rel l' (stable_insert hk_priority \<lparr>hk_priority = priority, hk_name = name, hk_func = fn\<rparr> hs)"
proof -
  let ?n = "\<lambda>p. \<lparr>sd_priority = priority, sd_name = name, sd_next = p, sd_shutdownFunc = fn\<rparr> :: 'a shutdown"
  let ?a = "ll_fresh l" and ?h = "ll_heap l"
  obtain as where as: "path ?h (ll_node l) as" "distinct as" "hs = hooks_at ?h as" "sorted (map hk_priority hs)"
    and fresh: "\<forall>a. ?a \<le> a \<longrightarrow> ?h a = None"
    using assms by (auto simp: hooks_rel_def)
  have notin: "?a \<notin> set as" using path_dom [OF as(1)] fresh by auto
  note front = front_refines [OF as(1,2) notin as(4) [unfolded as(3)] fresh, of "?n (ll_node l)" l]
  show ?thesis
  proof (cases as)
    case Nil
    with as front show ?thesis by (simp add: RegisterShutdown_def Let_def hooks_at_def hook_of_def)
  next
    case (Cons p ps)
    then have node: "ll_node l = Some p" and pp: "path ?h (Some p) (p # ps)" using as(1) by auto
    then obtain first where first: "?h p = Some first" by (auto split: option.splits)
    show ?thesis
    proof (cases "sd_priority first > priority")
      case True
      with front node first Cons as(3) show ?thesis
        by (simp add: RegisterShutdown_def Let_def hooks_at_def hook_of_def)
    next
      case False
      then have "sd_priority (the (?h p)) \<le> priority" using first by simp
      from walk_path [OF pp this] obtain bs c cs where sp: "as = bs @ c # cs" and w: "walk ?h priority p = Some c"
        "hooks_at ?h (bs @ [c]) = takeWhile (\<lambda>y. hk_priority y \<le> priority) hs"
        "hooks_at ?h cs = dropWhile (\<lambda>y. hk_priority y \<le> priority) hs"
        unfolding as(3) Cons by blast
      then obtain cn where cn: "?h c = Some cn" using path_dom [OF as(1)] by auto
      from after_refines [OF as(1) [unfolded sp] as(2) [unfolded sp] notin [unfolded sp] as(4) fresh cn, of "?n (sd_next cn)"]
        False node first w cn
      show ?thesis by (simp add: RegisterShutdown_def Let_def hook_of_def)
    qed
  qed
qed

lemma shutdown_loop_refines:
  assumes "path h p as" and "distinct as"
  shows "\<exists>bs. shutdown_loop h p w names =
      Some (case run_hooks (hooks_at h as) w names of (rest, w', names', r) \<Rightarrow>
        ((case bs of [] \<Rightarrow> None | b # _ \<Rightarrow> Some b), w', names', r)) \<and>
    path h (case bs of [] \<Rightarrow> None | b # _ \<Rightarrow> Some b) bs \<and> distinct bs \<and>
    hooks_at h bs = fst (run_hooks (hooks_at h as) w names)"
  using assms
proof (induction as arbitrary: p w names)
  case Nil
  then show ?case by (intro exI [of _ "[]"]) (simp add: shutdown_loop.simps hooks_at_def)
next
  case (Cons a as)
  then obtain n where n: "p = Some a" "h a = Some n" "path h (sd_next n) as"
    by (auto split: option.splits)
  obtain w' r where c: "call_hook (sd_shutdownFunc n) w = (w', r)" by fastforce
  show ?case
  proof (cases r)
    case None
    have "shutdown_loop h p w names = shutdown_loop h (sd_next n) w' (names @ [sd_name n])"
      using n c None by (subst shutdown_loop.simps) simp
    with Cons.IH [OF n(3), of w' "names @ [sd_name n]"] Cons.prems(2) n c None show ?thesis
      by (simp add: hooks_at_def hook_of_def)
  next
    case (Some e)
    have "shutdown_loop h p w names = Some (Some a, w', names, Some e)"
      using n c Some by (subst shutdown_loop.simps) simp
    with Cons.prems n c Some show ?thesis
      by (intro exI [of _ "a # as"]) (simp add: hooks_at_def hook_of_def)
  qed
qed

lemma new_linkedList_rel: "hooks_rel new_linkedList []"
  by (simp add: hooks_rel_def new_linkedList_def hooks_at_def exI [of _ "[]"])

lemma register_hook_refines:
  "hooks_rel l hs \<Longrightarrow>
     \<exists>l'. register_hook l x = Some l' \<and> hooks_rel l' (stable_insert hk_priority x hs)"
  using RegisterShutdown_refines [of l hs "hk_name x" "hk_func x" "hk_priority x"]
  by (cases x) (simp add: register_hook_def)

interpretation hooks: ordered_registry register_hook hk_priority hooks_rel new_linkedList
  by unfold_locales (fact new_linkedList_rel register_hook_refines)+

lemma register_all_add_all: "register_all l xs = hooks.add_all l xs"
  by (induction xs arbitrary: l) (auto split: option.splits)

lemma run_hooks_suffix:
  "\<exists>ds. hs = ds @ fst (run_hooks hs w names) \<and>
     fst (snd (snd (run_hooks hs w names))) = names @ map hk_name ds \<and>
     (snd (snd (snd (run_hooks hs w names))) = None \<longleftrightarrow> fst (run_hooks hs w names) = [])"
proof (induction hs arbitrary: w names)
  case (Cons x hs)
  obtain w' r where c: "call_hook (hk_func x) w = (w', r)" by fastforce
  show ?case
  proof (cases r)
    case None
    from Cons.IH [of w' "names @ [hk_name x]"] obtain ds where
      "hs = ds @ fst (run_hooks hs w' (names @ [hk_name x]))"
      "fst (snd (snd (run_hooks hs w' (names @ [hk_name x])))) = names @ hk_name x # map hk_name ds"
      "snd (snd (snd (run_hooks hs w' (names @ [hk_name x])))) = None \<longleftrightarrow>
         fst (run_hooks hs w' (names @ [hk_name x])) = []"
      by auto
    with c None show ?thesis by (intro exI [of _ "x # ds"]) simp
  next
    case (Some e)
    with c show ?thesis by (intro exI [of _ "[]"]) simp
  qed
qed simp

lemma run_hooks_no_panic:
  assumes "\<forall>x \<in> set hs. \<forall>w. snd (call_hook (hk_func x) w) = None"
  shows "snd (snd (snd (run_hooks hs w names))) = None"
  using assms
proof (induction hs arbitrary: w names)
  case (Cons x hs)
  then have "snd (call_hook (hk_func x) w) = None" by simp
  then obtain w' where "call_hook (hk_func x) w = (w', None)" by (metis prod.collapse)
  with Cons show ?case by simp
qed simp

lemma shutdownAll_refines:
  assumes "hooks_rel l hs"
  shows "\<exists>l'. shutdownAllAndDeleteAllCanceled l w = Some (l', snd (run_hooks hs w [])) \<and>
    hooks_rel l' (fst (run_hooks hs w []))"
proof -
  obtain as where as: "path (ll_heap l) (ll_node l) as" "distinct as" "hs = hooks_at (ll_heap l) as"
      "sorted (map hk_priority hs)" and fresh: "\<forall>a. ll_fresh l \<le> a \<longrightarrow> ll_heap l a = None"
    using assms by (auto simp: hooks_rel_def)
  obtain bs where bs: "shutdown_loop (ll_heap l) (ll_node l) w [] =
        Some (case run_hooks hs w [] of (rest, w', names', r) \<Rightarrow>
          ((case bs of [] \<Rightarrow> None | b # _ \<Rightarrow> Some b), w', names', r))"
      "path (ll_heap l) (case bs of [] \<Rightarrow> None | b # _ \<Rightarrow> Some b) bs" "distinct bs"
      "hooks_at (ll_heap l) bs = fst (run_hooks hs w [])"
    using shutdown_loop_refines [OF as(1,2), of w "[]"] as(3) by auto
  have "sorted (map hk_priority (fst (run_hooks hs w [])))"
    using run_hooks_suffix [of hs w "[]"] as(4) by (metis map_append sorted_append)
  then have "hooks_rel (l\<lparr>ll_node := case bs of [] \<Rightarrow> None | b # _ \<Rightarrow> Some b\<rparr>) (fst (run_hooks hs w []))"
    using bs fresh by (auto simp: hooks_rel_def intro!: exI [of _ bs])
  then show ?thesis
    using bs(1) by (auto simp: shutdownAllAndDeleteAllCanceled_def split: prod.splits)
qed

lemma shutdownAll_all_in_order:
  assumes "register_all new_linkedList regs = Some l"
    and "\<forall>x \<in> set regs. \<forall>w. snd (call_hook (hk_func x) w) = None"
  shows "\<exists>l' w'. shutdownAllAndDeleteAllCanceled l w =
      Some (l', w', map hk_name (sort_key hk_priority regs), None) \<and> ll_node l' = None"
proof -
  let ?hs = "sort_key hk_priority regs"
  have "hooks_rel l ?hs"
    using hooks.add_all_sorted [of regs] assms(1) by (simp add: register_all_add_all)
  from shutdownAll_refines [OF this, of w] obtain l' where
    l': "shutdownAllAndDeleteAllCanceled l w = Some (l', snd (run_hooks ?hs w []))"
      "hooks_rel l' (fst (run_hooks ?hs w []))" by blast
  have none: "snd (snd (snd (run_hooks ?hs w []))) = None"
    using assms(2) by (intro run_hooks_no_panic) simp
  with run_hooks_suffix [of ?hs w "[]"] have "fst (run_hooks ?hs w []) = []"
    and "fst (snd (snd (run_hooks ?hs w []))) = map hk_name ?hs" by auto
  moreover from this(1) l'(2) have "ll_node l' = None"
    by (auto simp: hooks_rel_def hooks_at_def)
  ultimately show ?thesis using l'(1) none by (metis prod.collapse)
qed

section \<open>Properties\<close>

text \<open>
  C5. Registering hooks in any order always returns, and the linked list then holds them in
  ascending priority, hooks of equal priority in the order of registration: the stable sort.
\<close>

theorem RegisterShutdown_stable_sort:
  "\<exists>l. register_all new_linkedList regs = Some l \<and> hooks_rel l (sort_key hk_priority regs)"
  unfolding register_all_add_all by (rule hooks.add_all_sorted)

text \<open>
  When no registered hook panics, stopping the kernel runs every hook exactly once, in ascending
  priority and, within a priority, in the order of registration; the list is empty afterwards.
\<close>

theorem shutdown_runs_all_in_order:
  assumes "register_all new_linkedList regs = Some l"
    and "\<forall>x \<in> set regs. \<forall>w. snd (call_hook (hk_func x) w) = None"
  shows "\<exists>l' w'. shutdownAllAndDeleteAllCanceled l w =
      Some (l', w', map hk_name (sort_key hk_priority regs), None) \<and> ll_node l' = None"
  using assms by (rule shutdownAll_all_in_order)

theorem shutdown_runs_all_in_order_witness:
  "\<exists>l l' w'. register_all new_linkedList
      [\<lparr>hk_priority = MediumPriority, hk_name = ''scheduler'', hk_func = Some (\<lambda>w::nat. (w + 1, None))\<rparr>,
       \<lparr>hk_priority = HighPriority, hk_name = ''http'', hk_func = Some (\<lambda>w. (w + 2, None))\<rparr>] = Some l \<and>
     shutdownAllAndDeleteAllCanceled l 0 = Some (l', w', [''http'', ''scheduler''], None)"
proof -
  let ?regs = "[\<lparr>hk_priority = MediumPriority, hk_name = ''scheduler'', hk_func = Some (\<lambda>w::nat. (w + 1, None))\<rparr>,
       \<lparr>hk_priority = HighPriority, hk_name = ''http'', hk_func = Some (\<lambda>w. (w + 2, None))\<rparr>]"
  obtain l where l: "register_all new_linkedList ?regs = Some l"
    using hooks.add_all_sorted [of ?regs] by (auto simp: register_all_add_all)
  have "\<forall>x \<in> set ?regs. \<forall>w. snd (call_hook (hk_func x) w) = None" by (simp add: call_hook_def)
  from shutdown_runs_all_in_order [OF l this, of 0]
  have "\<exists>l' w'. shutdownAllAndDeleteAllCanceled l 0 = Some (l', w', [''http'', ''scheduler''], None)"
    by (auto simp: MediumPriority_def HighPriority_def)
  with l show ?thesis by blast
qed

text \<open>
  A panicking hook ends the shutdown: the hooks before it in priority order have run, and the
  list starts with the panicking hook, followed by every hook that has not run.
\<close>

theorem shutdown_panic_keeps_rest:
  assumes "hooks_rel l hs" and "shutdownAllAndDeleteAllCanceled l w = Some (l', w', names, Some e)"
  shows "\<exists>ds rest. hs = ds @ rest \<and> rest \<noteq> [] \<and> names = map hk_name ds \<and> hooks_rel l' rest"
proof -
  from shutdownAll_refines [OF assms(1), of w] assms(2)
  have r: "snd (run_hooks hs w []) = (w', names, Some e)" "hooks_rel l' (fst (run_hooks hs w []))"
    by auto
  with run_hooks_suffix [of hs w "[]"] show ?thesis by auto
qed

theorem shutdown_panic_keeps_rest_witness:
  "\<exists>l ds rest. hooks_rel l (ds @ rest) \<and> rest \<noteq> [] \<and>
     shutdownAllAndDeleteAllCanceled l (0::nat) =
       Some (l, 0, map hk_name ds, Some ''invalid memory address or nil pointer dereference'')"
proof -
  let ?x = "\<lparr>hk_priority = 1, hk_name = ''nil'', hk_func = None\<rparr> :: nat hook"
  let ?l = "\<lparr>ll_node = Some 0,
      ll_heap = [0 \<mapsto> \<lparr>sd_priority = 1, sd_name = ''nil'', sd_next = None, sd_shutdownFunc = None\<rparr>],
      ll_fresh = 1\<rparr> :: nat linkedList"
  have rel: "hooks_rel ?l [?x]"
    by (simp add: hooks_rel_def hooks_at_def hook_of_def exI [of _ "[0]"])
  have run: "shutdownAllAndDeleteAllCanceled ?l 0 =
      Some (?l, 0, [], Some ''invalid memory address or nil pointer dereference'')"
    by (simp add: shutdownAllAndDeleteAllCanceled_def shutdown_loop.simps call_hook_def)
  from shutdown_panic_keeps_rest [OF rel run] obtain ds rest where
    d: "[?x] = ds @ rest" "rest \<noteq> []" "[] = map hk_name ds" by blast
  have "hooks_rel ?l (ds @ rest)" using rel d(1) by simp
  with d run show ?thesis by (intro exI [of _ ?l] exI [of _ ds] exI [of _ rest]) simp
qed

end
