(* ===== verification/Redis_Locker.thy ===== *)
theory Redis_Locker
  imports Go_Prelude
begin

text \<open>
  The package \<^verbatim>\<open>locker\<close>: the interface \<^verbatim>\<open>Locker\<close> (\<^verbatim>\<open>contract.go\<close>) and its Redis implementation
  (\<^verbatim>\<open>redis_locker.go\<close>) with the three Lua scripts.

  The Redis server is not part of the repository. Its commands are the table \<open>redis_ops\<close> carried by
  the server object, and \<open>redis_contract\<close> states what the Redis manual says of SET with NX and PX,
  GET, DEL and PEXPIRE, in terms of the value and the remaining milliseconds of every key
  (\<open>r_view\<close>, what GET and PTTL show); \<open>r_advance\<close> lets time pass. A script runs atomically on the
  server. A call through the client may reach the server, or be lost on the way there or back; the
  caller sees an error in both lossy cases (\<open>net\<close>).
\<close>

section \<open>The server\<close>

record 'r redis_ops =
  r_SET_NX_PX :: "'r \<Rightarrow> string \<Rightarrow> string \<Rightarrow> int \<Rightarrow> 'r \<times> bool option"
  r_GET :: "'r \<Rightarrow> string \<Rightarrow> string option"
  r_DEL :: "'r \<Rightarrow> string \<Rightarrow> 'r \<times> int"
  r_PEXPIRE :: "'r \<Rightarrow> string \<Rightarrow> int \<Rightarrow> 'r \<times> int"
  r_advance :: "'r \<Rightarrow> int \<Rightarrow> 'r"
  r_view :: "'r \<Rightarrow> string \<rightharpoonup> string \<times> int"

text \<open>SET with NX and PX: \<open>None\<close> is the error reply for a non-positive time, \<open>Some False\<close> the nil reply.\<close>

definition set_contract :: "'r redis_ops \<Rightarrow> bool" where
  "set_contract ops \<longleftrightarrow> (\<forall>s k v ms s' reply. r_SET_NX_PX ops s k v ms = (s', reply) \<longrightarrow>
     (if ms \<le> 0 then reply = None \<and> r_view ops s' = r_view ops s
      else if r_view ops s k = None then
        reply = Some True \<and> r_view ops s' = (r_view ops s)(k \<mapsto> (v, ms))
      else reply = Some False \<and> r_view ops s' = r_view ops s))"

definition del_contract :: "'r redis_ops \<Rightarrow> bool" where
  "del_contract ops \<longleftrightarrow> (\<forall>s k s' n. r_DEL ops s k = (s', n) \<longrightarrow>
     r_view ops s' = (r_view ops s)(k := None) \<and> n = of_bool (r_view ops s k \<noteq> None))"

definition pexpire_contract :: "'r redis_ops \<Rightarrow> bool" where
  "pexpire_contract ops \<longleftrightarrow> (\<forall>s k ms s' n. r_PEXPIRE ops s k ms = (s', n) \<longrightarrow>
     (case r_view ops s k of
        None \<Rightarrow> n = 0 \<and> r_view ops s' = r_view ops s
      | Some (v, t) \<Rightarrow> n = 1 \<and>
          r_view ops s' = (if ms \<le> 0 then (r_view ops s)(k := None)
                           else (r_view ops s)(k \<mapsto> (v, ms)))))"

definition time_contract :: "'r redis_ops \<Rightarrow> bool" where
  "time_contract ops \<longleftrightarrow> (\<forall>s d k. 0 \<le> d \<longrightarrow>
     r_view ops (r_advance ops s d) k =
       (case r_view ops s k of None \<Rightarrow> None
        | Some (v, t) \<Rightarrow> if t \<le> d then None else Some (v, t - d)))"

definition redis_contract :: "'r redis_ops \<Rightarrow> bool" where
  "redis_contract ops \<longleftrightarrow> set_contract ops \<and> del_contract ops \<and> pexpire_contract ops \<and>
     time_contract ops \<and> (\<forall>s k. r_GET ops s k = map_option fst (r_view ops s k))"

record 'r redis_server =
  srv_ops :: "'r redis_ops"
  srv_state :: 'r

section \<open>The scripts\<close>

definition lockKeyPrefix :: string where
  "lockKeyPrefix = ''gitlab.wildberries.ru/whs-ai/whs-ai/github.com/PavelAgarkov/service-pkg-block-prefix-''"

text \<open>
  A script returns an integer, or fails with the error of a command. In Lua the nil reply of SET
  and the missing value of GET are \<^verbatim>\<open>false\<close>, which differs from every string.
\<close>

definition lockScript :: "'r redis_server \<Rightarrow> string \<Rightarrow> string \<Rightarrow> int \<Rightarrow> 'r redis_server \<times> (string + int)" where
  "lockScript s key val ms =
     (case r_SET_NX_PX (srv_ops s) (srv_state s) key val ms of
        (st, None) \<Rightarrow> (s\<lparr>srv_state := st\<rparr>, Inl ''ERR invalid expire time in set command'')
      | (st, Some reply) \<Rightarrow> (s\<lparr>srv_state := st\<rparr>, Inr (if reply then 1 else 0)))"

definition unlockScript :: "'r redis_server \<Rightarrow> string \<Rightarrow> string \<Rightarrow> 'r redis_server \<times> (string + int)" where
  "unlockScript s key val =
     (if r_GET (srv_ops s) (srv_state s) key = Some val then
        (case r_DEL (srv_ops s) (srv_state s) key of (st, n) \<Rightarrow> (s\<lparr>srv_state := st\<rparr>, Inr n))
      else (s, Inr 0))"

definition extendTTLScript :: "'r redis_server \<Rightarrow> string \<Rightarrow> string \<Rightarrow> int \<Rightarrow> 'r redis_server \<times> (string + int)" where
  "extendTTLScript s key val ms =
     (if r_GET (srv_ops s) (srv_state s) key = Some val then
        (case r_PEXPIRE (srv_ops s) (srv_state s) key ms of (st, n) \<Rightarrow> (s\<lparr>srv_state := st\<rparr>, Inr n))
      else (s, Inr 0))"

section \<open>RedisLocker\<close>

datatype net = Reached | RequestLost string | ReplyLost string

definition Eval :: "net \<Rightarrow> 's \<Rightarrow> ('s \<Rightarrow> 's \<times> (string + int)) \<Rightarrow> 's \<times> (string + int)" where
  "Eval n s script =
     (case n of Reached \<Rightarrow> script s
      | RequestLost e \<Rightarrow> (s, Inl e)
      | ReplyLost e \<Rightarrow> (fst (script s), Inl e))"

definition Milliseconds :: "duration \<Rightarrow> int" where
  "Milliseconds d = go_div d Millisecond"

text \<open>The pair \<^verbatim>\<open>(bool, error)\<close>: an error comes with \<^verbatim>\<open>false\<close>.\<close>

definition eval_result :: "string + int \<Rightarrow> bool \<times> go_error option" where
  "eval_result r =
     (case r of Inl e \<Rightarrow> (False, Some (ErrorString (''eval: '' @ e)))
      | Inr n \<Rightarrow> (n = 1, None))"

definition Lock ::
    "net \<Rightarrow> 'r redis_server \<Rightarrow> string \<Rightarrow> string \<Rightarrow> duration
       \<Rightarrow> 'r redis_server \<times> bool \<times> go_error option" where
  "Lock n s key val expiration =
     (case Eval n s (\<lambda>s. lockScript s (lockKeyPrefix @ key) val (Milliseconds expiration)) of
        (s', r) \<Rightarrow> (s', eval_result r))"

definition Unlock ::
    "net \<Rightarrow> 'r redis_server \<Rightarrow> string \<Rightarrow> string \<Rightarrow> 'r redis_server \<times> bool \<times> go_error option" where
  "Unlock n s key val =
     (case Eval n s (\<lambda>s. unlockScript s (lockKeyPrefix @ key) val) of (s', r) \<Rightarrow> (s', eval_result r))"

definition ExtendLockTTL ::
    "net \<Rightarrow> 'r redis_server \<Rightarrow> string \<Rightarrow> string \<Rightarrow> duration
       \<Rightarrow> 'r redis_server \<times> bool \<times> go_error option" where
  "ExtendLockTTL n s key val expiration =
     (case Eval n s (\<lambda>s. extendTTLScript s (lockKeyPrefix @ key) val (Milliseconds expiration)) of
        (s', r) \<Rightarrow> (s', eval_result r))"

section \<open>Who holds a lock\<close>

definition lock_view :: "'r redis_server \<Rightarrow> string \<rightharpoonup> string \<times> int" where
  "lock_view s key = r_view (srv_ops s) (srv_state s) (lockKeyPrefix @ key)"

definition holder :: "'r redis_server \<Rightarrow> string \<rightharpoonup> string" where
  "holder s key = map_option fst (lock_view s key)"

definition srv_invar :: "'r redis_server \<Rightarrow> bool" where
  "srv_invar s \<longleftrightarrow> redis_contract (srv_ops s)"

definition srv_advance :: "'r redis_server \<Rightarrow> int \<Rightarrow> 'r redis_server" where
  "srv_advance s d = s\<lparr>srv_state := r_advance (srv_ops s) (srv_state s) d\<rparr>"

text \<open>A server that is a map from keys to values with their remaining time obeys the contract.\<close>

definition map_redis_ops :: "(string \<rightharpoonup> string \<times> int) redis_ops" where
  "map_redis_ops =
     \<lparr>r_SET_NX_PX = (\<lambda>m k v ms. if ms \<le> 0 then (m, None)
        else if m k = None then (m(k \<mapsto> (v, ms)), Some True) else (m, Some False)),
      r_GET = (\<lambda>m k. map_option fst (m k)),
      r_DEL = (\<lambda>m k. (m(k := None), of_bool (m k \<noteq> None))),
      r_PEXPIRE = (\<lambda>m k ms. case m k of None \<Rightarrow> (m, 0)
        | Some (v, t) \<Rightarrow> (if ms \<le> 0 then m(k := None) else m(k \<mapsto> (v, ms)), 1)),
      r_advance = (\<lambda>m d k. case m k of None \<Rightarrow> None
        | Some (v, t) \<Rightarrow> if t \<le> d then None else Some (v, t - d)),
      r_view = (\<lambda>m. m)\<rparr>"

definition map_redis :: "(string \<rightharpoonup> string \<times> int) \<Rightarrow> (string \<rightharpoonup> string \<times> int) redis_server" where
  "map_redis m = \<lparr>srv_ops = map_redis_ops, srv_state = m\<rparr>"

section \<open>The interface Locker\<close>

text \<open>
  What a client of \<^verbatim>\<open>Locker\<close> relies on, whatever happens to the messages (\<open>'n\<close>): only a free lock is
  taken, only the holder's own value releases or extends, an unsuccessful call never changes another
  holder's lock, and no call touches another key.
\<close>

locale lock_service =
  fixes lock :: "'n \<Rightarrow> 's \<Rightarrow> 'k \<Rightarrow> 'v \<Rightarrow> 'd \<Rightarrow> 's \<times> bool \<times> 'e"
    and unlock :: "'n \<Rightarrow> 's \<Rightarrow> 'k \<Rightarrow> 'v \<Rightarrow> 's \<times> bool \<times> 'e"
    and extend :: "'n \<Rightarrow> 's \<Rightarrow> 'k \<Rightarrow> 'v \<Rightarrow> 'd \<Rightarrow> 's \<times> bool \<times> 'e"
    and held_by :: "'s \<Rightarrow> 'k \<rightharpoonup> 'v"
    and invar :: "'s \<Rightarrow> bool"
  assumes lock_invar: "invar s \<Longrightarrow> lock n s k v d = (s', r) \<Longrightarrow> invar s'"
    and unlock_invar: "invar s \<Longrightarrow> unlock n s k v = (s', r) \<Longrightarrow> invar s'"
    and extend_invar: "invar s \<Longrightarrow> extend n s k v d = (s', r) \<Longrightarrow> invar s'"
    and lock_ok: "invar s \<Longrightarrow> lock n s k v d = (s', True, e) \<Longrightarrow>
      held_by s k = None \<and> held_by s' = (held_by s)(k \<mapsto> v)"
    and lock_cases: "invar s \<Longrightarrow> lock n s k v d = (s', r) \<Longrightarrow>
      held_by s' = held_by s \<or> held_by s k = None \<and> held_by s' = (held_by s)(k \<mapsto> v)"
    and unlock_cases: "invar s \<Longrightarrow> unlock n s k v = (s', r) \<Longrightarrow>
      held_by s' = held_by s \<or> held_by s k = Some v \<and> held_by s' = (held_by s)(k := None)"
    and unlock_ok: "invar s \<Longrightarrow> unlock n s k v = (s', True, e) \<Longrightarrow>
      held_by s k = Some v \<and> held_by s' = (held_by s)(k := None)"
    and extend_cases: "invar s \<Longrightarrow> extend n s k v d = (s', r) \<Longrightarrow>
      held_by s' = held_by s \<or> held_by s k = Some v \<and> held_by s' = (held_by s)(k := None)"
    and extend_ok: "invar s \<Longrightarrow> extend n s k v d = (s', True, e) \<Longrightarrow> held_by s k = Some v"
begin

lemma lock_keeps_other:
  assumes "invar s" and "held_by s k = Some u" and "lock n s k v d = (s', ok, e)"
  shows "held_by s' = held_by s \<and> \<not> ok"
  using lock_cases [OF assms(1,3)] lock_ok [OF assms(1), of n k v d s' e] assms(2,3)
  by (cases ok) auto

lemma unlock_keeps_other:
  assumes "invar s" and "held_by s k = Some u" and "u \<noteq> v" and "unlock n s k v = (s', ok, e)"
  shows "held_by s' = held_by s \<and> \<not> ok"
  using unlock_cases [OF assms(1,4)] unlock_ok [OF assms(1), of n k v s' e] assms(2-4)
  by (cases ok) auto

lemma extend_keeps_other:
  assumes "invar s" and "held_by s k \<noteq> Some v" and "extend n s k v d = (s', ok, e)"
  shows "held_by s' = held_by s \<and> \<not> ok"
  using extend_cases [OF assms(1,3)] extend_ok [OF assms(1), of n k v d s' e] assms(2,3)
  by (cases ok) auto

end

section \<open>Scripts against the contract\<close>

lemma lock_view_upd:
  "r_view (srv_ops s) st = (r_view (srv_ops s) (srv_state s))(lockKeyPrefix @ key := x) \<Longrightarrow>
     lock_view (s\<lparr>srv_state := st\<rparr>) = (lock_view s)(key := x)"
  by (simp add: lock_view_def fun_eq_iff)

lemma lock_view_same:
  "r_view (srv_ops s) st = r_view (srv_ops s) (srv_state s) \<Longrightarrow>
     lock_view (s\<lparr>srv_state := st\<rparr>) = lock_view s"
  by (simp add: lock_view_def fun_eq_iff)

lemma srv_invar_upd: "srv_invar (s\<lparr>srv_state := st\<rparr>) = srv_invar s"
  by (simp add: srv_invar_def)

lemma srv_GET: "srv_invar s \<Longrightarrow>
    r_GET (srv_ops s) (srv_state s) (lockKeyPrefix @ key) = holder s key"
  by (simp add: srv_invar_def redis_contract_def holder_def lock_view_def)

lemma lockScript_view:
  assumes "srv_invar s" and "lockScript s (lockKeyPrefix @ key) val ms = (s', r)"
  shows "srv_invar s' \<and>
    (if ms \<le> 0 then lock_view s' = lock_view s \<and> (\<exists>e. r = Inl e)
     else if lock_view s key = None then lock_view s' = (lock_view s)(key \<mapsto> (val, ms)) \<and> r = Inr 1
     else lock_view s' = lock_view s \<and> r = Inr 0)"
proof -
  obtain st reply where st: "r_SET_NX_PX (srv_ops s) (srv_state s) (lockKeyPrefix @ key) val ms = (st, reply)"
    by fastforce
  have "set_contract (srv_ops s)" using assms(1) by (simp add: srv_invar_def redis_contract_def)
  note c = this [unfolded set_contract_def, rule_format, OF st]
  have s': "s' = s\<lparr>srv_state := st\<rparr>"
    using assms(2) st by (auto simp: lockScript_def split: option.splits)
  consider "ms \<le> 0" | "0 < ms" "lock_view s key = None" | "0 < ms" "lock_view s key \<noteq> None"
    by linarith
  then show ?thesis
  proof cases
    case 1
    with c st assms s' show ?thesis by (auto simp: lockScript_def srv_invar_upd lock_view_same)
  next
    case 2
    with c have "reply = Some True"
      "r_view (srv_ops s) st = (r_view (srv_ops s) (srv_state s))(lockKeyPrefix @ key \<mapsto> (val, ms))"
      by (simp_all add: lock_view_def)
    with 2 st assms s' show ?thesis by (auto simp: lockScript_def srv_invar_upd lock_view_upd)
  next
    case 3
    with c have "reply = Some False" "r_view (srv_ops s) st = r_view (srv_ops s) (srv_state s)"
      by (simp_all add: lock_view_def)
    with 3 st assms s' show ?thesis by (auto simp: lockScript_def srv_invar_upd lock_view_same)
  qed
qed

lemma unlockScript_view:
  assumes "srv_invar s" and "unlockScript s (lockKeyPrefix @ key) val = (s', r)"
  shows "srv_invar s' \<and>
    (if holder s key = Some val then lock_view s' = (lock_view s)(key := None) \<and> r = Inr 1
     else lock_view s' = lock_view s \<and> r = Inr 0)"
proof (cases "holder s key = Some val")
  case True
  obtain st n where st: "r_DEL (srv_ops s) (srv_state s) (lockKeyPrefix @ key) = (st, n)"
    by fastforce
  have "del_contract (srv_ops s)" using assms(1) by (simp add: srv_invar_def redis_contract_def)
  from this [unfolded del_contract_def, rule_format, OF st] True
  have "n = 1" "r_view (srv_ops s) st = (r_view (srv_ops s) (srv_state s))(lockKeyPrefix @ key := None)"
    by (auto simp: holder_def lock_view_def)
  with True st assms show ?thesis
    by (auto simp: unlockScript_def srv_GET srv_invar_upd lock_view_upd)
next
  case False
  with assms show ?thesis by (auto simp: unlockScript_def srv_GET)
qed

lemma extendTTLScript_view:
  assumes "srv_invar s" and "extendTTLScript s (lockKeyPrefix @ key) val ms = (s', r)"
  shows "srv_invar s' \<and>
    (if holder s key = Some val then
       r = Inr 1 \<and> lock_view s' = (lock_view s)(key := (if ms \<le> 0 then None else Some (val, ms)))
     else lock_view s' = lock_view s \<and> r = Inr 0)"
proof (cases "holder s key = Some val")
  case True
  obtain st n where st: "r_PEXPIRE (srv_ops s) (srv_state s) (lockKeyPrefix @ key) ms = (st, n)"
    by fastforce
  have "pexpire_contract (srv_ops s)" using assms(1) by (simp add: srv_invar_def redis_contract_def)
  from this [unfolded pexpire_contract_def, rule_format, OF st] True
  have "n = 1" "r_view (srv_ops s) st =
      (r_view (srv_ops s) (srv_state s))(lockKeyPrefix @ key := (if ms \<le> 0 then None else Some (val, ms)))"
    by (auto simp: holder_def lock_view_def split: option.splits)
  with True st assms show ?thesis
    by (auto simp: extendTTLScript_def srv_GET srv_invar_upd lock_view_upd)
next
  case False
  with assms show ?thesis by (auto simp: extendTTLScript_def srv_GET)
qed

lemma holder_upd:
  "lock_view s' = (lock_view s)(key := x) \<Longrightarrow> holder s' = (holder s)(key := map_option fst x)"
  by (simp add: holder_def fun_eq_iff)

lemma holder_same: "lock_view s' = lock_view s \<Longrightarrow> holder s' = holder s"
  by (simp add: holder_def fun_eq_iff)

lemma holder_None: "holder s key = None \<longleftrightarrow> lock_view s key = None"
  by (simp add: holder_def)

text \<open>Through the client: what a call may have done to the lock, and what success means.\<close>

lemma Lock_view:
  assumes "srv_invar s" and "Lock n s key val d = (s', ok, e)"
  shows "srv_invar s'"
    and "lock_view s' = lock_view s \<or>
      lock_view s key = None \<and> lock_view s' = (lock_view s)(key \<mapsto> (val, Milliseconds d))"
    and "ok \<Longrightarrow> lock_view s key = None \<and> lock_view s' = (lock_view s)(key \<mapsto> (val, Milliseconds d)) \<and> e = None"
proof -
  obtain s1 r1 where l: "lockScript s (lockKeyPrefix @ key) val (Milliseconds d) = (s1, r1)" by fastforce
  note v = lockScript_view [OF assms(1) l]
  show "srv_invar s'" "lock_view s' = lock_view s \<or>
      lock_view s key = None \<and> lock_view s' = (lock_view s)(key \<mapsto> (val, Milliseconds d))"
    "ok \<Longrightarrow> lock_view s key = None \<and> lock_view s' = (lock_view s)(key \<mapsto> (val, Milliseconds d)) \<and> e = None"
    using assms l v by (auto simp: Lock_def Eval_def eval_result_def split: net.splits if_splits)
qed

lemma Unlock_view:
  assumes "srv_invar s" and "Unlock n s key val = (s', ok, e)"
  shows "srv_invar s'"
    and "lock_view s' = lock_view s \<or> holder s key = Some val \<and> lock_view s' = (lock_view s)(key := None)"
    and "ok \<Longrightarrow> holder s key = Some val \<and> lock_view s' = (lock_view s)(key := None)"
proof -
  obtain s1 r1 where l: "unlockScript s (lockKeyPrefix @ key) val = (s1, r1)" by fastforce
  note v = unlockScript_view [OF assms(1) l]
  show "srv_invar s'"
    "lock_view s' = lock_view s \<or> holder s key = Some val \<and> lock_view s' = (lock_view s)(key := None)"
    "ok \<Longrightarrow> holder s key = Some val \<and> lock_view s' = (lock_view s)(key := None)"
    using assms l v by (auto simp: Unlock_def Eval_def eval_result_def split: net.splits if_splits)
qed

lemma ExtendLockTTL_view:
  assumes "srv_invar s" and "ExtendLockTTL n s key val d = (s', ok, e)"
  shows "srv_invar s'"
    and "lock_view s' = lock_view s \<or> holder s key = Some val \<and>
      lock_view s' = (lock_view s)(key := (if Milliseconds d \<le> 0 then None else Some (val, Milliseconds d)))"
    and "ok \<Longrightarrow> holder s key = Some val"
    and "n = Reached \<Longrightarrow> ok \<longleftrightarrow> holder s key = Some val"
proof -
  obtain s1 r1 where l: "extendTTLScript s (lockKeyPrefix @ key) val (Milliseconds d) = (s1, r1)"
    by fastforce
  note v = extendTTLScript_view [OF assms(1) l]
  show "srv_invar s'" "lock_view s' = lock_view s \<or> holder s key = Some val \<and>
      lock_view s' = (lock_view s)(key := (if Milliseconds d \<le> 0 then None else Some (val, Milliseconds d)))"
    "ok \<Longrightarrow> holder s key = Some val" "n = Reached \<Longrightarrow> ok \<longleftrightarrow> holder s key = Some val"
    using assms l v
    by (auto simp: ExtendLockTTL_def Eval_def eval_result_def split: net.splits if_splits)
qed

interpretation redis: lock_service Lock Unlock ExtendLockTTL holder srv_invar
proof (unfold_locales, goal_cases)
  case 1 then show ?case by (metis Lock_view(1) prod.collapse)
next
  case 2 then show ?case by (metis Unlock_view(1) prod.collapse)
next
  case 3 then show ?case by (metis ExtendLockTTL_view(1) prod.collapse)
next
  case (4 s n k v d s' e)
  from Lock_view(3) [OF this] show ?case by (simp add: holder_None holder_upd)
next
  case (5 s n k v d s' r)
  obtain ok e where "r = (ok, e)" by fastforce
  with Lock_view(2) [OF 5(1), of n k v d s' ok e] 5(2) show ?case
    by (auto simp: holder_None dest: holder_upd holder_same)
next
  case (6 s n k v s' r)
  obtain ok e where "r = (ok, e)" by fastforce
  with Unlock_view(2) [OF 6(1), of n k v s' ok e] 6(2) show ?case
    by (auto dest: holder_upd holder_same)
next
  case (7 s n k v s' e)
  from Unlock_view(3) [OF this] show ?case by (simp add: holder_upd)
next
  case (8 s n k v d s' r)
  obtain ok e where r: "r = (ok, e)" by fastforce
  have "holder s k = Some v \<Longrightarrow> (holder s)(k \<mapsto> v) = holder s" by (simp add: fun_upd_idem)
  with ExtendLockTTL_view(2) [OF 8(1), of n k v d s' ok e] 8(2) r show ?case
    by (auto dest!: holder_upd holder_same split: if_splits)
next
  case (9 s n k v d s' e)
  from ExtendLockTTL_view(3) [OF this] show ?case by simp
qed

lemma map_redis_contract: "redis_contract map_redis_ops"
  unfolding redis_contract_def set_contract_def del_contract_def pexpire_contract_def time_contract_def
  by (auto simp: map_redis_ops_def split: option.splits if_splits)

lemma map_redis_invar [simp]: "srv_invar (map_redis m)"
  by (simp add: srv_invar_def map_redis_def map_redis_contract)

lemma map_redis_view: "lock_view (map_redis m) key = m (lockKeyPrefix @ key)"
  by (simp add: lock_view_def map_redis_def map_redis_ops_def)

lemma srv_advance_invar [inv_intros]: "srv_invar s \<Longrightarrow> srv_invar (srv_advance s d)"
  by (simp add: srv_invar_def srv_advance_def)

lemma srv_advance_view:
  "srv_invar s \<Longrightarrow> 0 \<le> d \<Longrightarrow>
     lock_view (srv_advance s d) key =
       (case lock_view s key of None \<Rightarrow> None | Some (v, t) \<Rightarrow> if t \<le> d then None else Some (v, t - d))"
  by (simp add: srv_invar_def redis_contract_def time_contract_def lock_view_def srv_advance_def)

section \<open>Properties\<close>

text \<open>
  C7. Mutual exclusion at the server: while one value holds a lock, no call with another value takes,
  releases or extends it, whatever happens to the messages, and each such call reports failure.
\<close>

theorem Locker_mutual_exclusion:
  assumes "srv_invar s" and "holder s key = Some u" and "v \<noteq> u"
    and "c = Lock n s key v d \<or> c = Unlock n s key v \<or> c = ExtendLockTTL n s key v d"
  shows "holder (fst c) = holder s \<and> \<not> fst (snd c)"
proof -
  obtain s' ok e where c: "c = (s', ok, e)" by (cases c) auto
  with assms show ?thesis
    using redis.lock_keeps_other [OF assms(1,2), of n v d s' ok e]
      redis.unlock_keeps_other [OF assms(1,2), of v n s' ok e]
      redis.extend_keeps_other [OF assms(1), of key v n d s' ok e] by auto
qed

theorem Locker_mutual_exclusion_witness:
  "\<not> fst (snd (Lock (ReplyLost ''timeout'')
      (map_redis [lockKeyPrefix @ ''cron'' \<mapsto> (''a'', 30000)]) ''cron'' ''b'' (30 * Second)))"
proof -
  let ?s = "map_redis [lockKeyPrefix @ ''cron'' \<mapsto> (''a'', 30000)]"
  have h: "holder ?s ''cron'' = Some ''a''" by (simp add: holder_def map_redis_view)
  show ?thesis
    using Locker_mutual_exclusion [OF map_redis_invar h, of "''b''" _ "ReplyLost ''timeout''" "30 * Second"]
    by simp
qed

text \<open>
  C26. A lock that was taken can be released by its value: after a successful \<^verbatim>\<open>Lock\<close> the value holds
  the key with the full time to live, \<^verbatim>\<open>Unlock\<close> with the same value then succeeds when it reaches the
  server, and the lock is free as before; locks under other names never change.
\<close>

theorem Lock_Unlock_roundtrip:
  assumes "srv_invar s" and "Lock n s key v d = (s1, True, e)"
    and "Unlock Reached s1 key v = (s2, ok, e2)"
  shows "lock_view s1 key = Some (v, Milliseconds d) \<and> ok \<and> e2 = None \<and> lock_view s2 = lock_view s"
proof -
  note l = Lock_view [OF assms(1,2)]
  have h: "holder s1 key = Some v" using l(3) by (simp add: holder_def)
  obtain s3 r3 where u: "unlockScript s1 (lockKeyPrefix @ key) v = (s3, r3)" by fastforce
  from unlockScript_view [OF l(1) u] h
  have "r3 = Inr 1" "lock_view s3 = (lock_view s1)(key := None)" by simp_all
  with assms(3) u l(3) show ?thesis
    by (auto simp: Unlock_def Eval_def eval_result_def fun_upd_idem)
qed

theorem Lock_Unlock_roundtrip_witness:
  "fst (snd (Unlock Reached (fst (Lock Reached (map_redis Map.empty) ''cron'' ''a'' (30 * Second))) ''cron'' ''a''))"
proof -
  have l: "Lock Reached (map_redis Map.empty) ''cron'' ''a'' (30 * Second) =
      (fst (Lock Reached (map_redis Map.empty) ''cron'' ''a'' (30 * Second)), True, None)"
    by (simp add: Lock_def Eval_def lockScript_def map_redis_def map_redis_ops_def eval_result_def
        Milliseconds_def go_div_def Second_def Millisecond_def)
  obtain s2 ok e2 where u: "Unlock Reached
      (fst (Lock Reached (map_redis Map.empty) ''cron'' ''a'' (30 * Second))) ''cron'' ''a'' = (s2, ok, e2)"
    using prod_cases3 by blast
  from Lock_Unlock_roundtrip [OF map_redis_invar l u] u show ?thesis by simp
qed

end
