(* ===== verification/Watchdog.thy ===== *)
theory Watchdog
  imports Redis_Locker Utils "HOL-Library.Sublist"
begin

text \<open>
  The package \<^verbatim>\<open>watchdog\<close> (\<^verbatim>\<open>watchdog_leader.go\<close>): leader election over a \<^verbatim>\<open>Locker\<close>. The goroutine
  started by \<^verbatim>\<open>Elect\<close> is a state machine. Its variable \<^verbatim>\<open>isLeader\<close>, the buffered channel \<^verbatim>\<open>watcher\<close>
  (capacity 8) and the call of \<^verbatim>\<open>send\<close> in progress are its state; one iteration of the loop is one
  function per branch of the \<^verbatim>\<open>select\<close>. A \<^verbatim>\<open>send\<close> waits until the buffer has room or the context is
  done, so it is a state of its own (\<open>wd_pending\<close>), together with what the goroutine does afterwards.

  \<open>wd_events\<close> records the events \<^verbatim>\<open>send\<close> was called with; it is not part of the program's state and
  no branch reads it.
\<close>

section \<open>Configuration\<close>

definition DefaultLeaderExpiration :: duration where
  "DefaultLeaderExpiration = 30 * Second"

definition LostAcquire :: int where "LostAcquire = 1"

definition TakenAcquire :: int where "TakenAcquire = 2"

record Config =
  ElectionName :: string
  Expiration :: duration

text \<open>The checks at the head of \<^verbatim>\<open>Elect\<close>, before the goroutine starts.\<close>

definition Elect_config :: "Config \<Rightarrow> Config call" where
  "Elect_config cfg =
     (if ElectionName cfg = '''' then Panic ''ElectionName is empty''
      else Return (if Expiration cfg \<le> 0 then cfg\<lparr>Expiration := DefaultLeaderExpiration\<rparr> else cfg))"

text \<open>
  \<^verbatim>\<open>rand.Int63n(n)\<close> panics for a non-positive \<open>n\<close> and otherwise yields a number below \<open>n\<close>; \<open>rnd\<close> is
  the number it yields.
\<close>

definition Int63n :: "int \<Rightarrow> int \<Rightarrow> int call" where
  "Int63n rnd n = (if n \<le> 0 then Panic ''invalid argument to Int63n'' else Return (rnd mod n))"

definition renewIntervalJitter :: "int \<Rightarrow> Config \<Rightarrow> duration call" where
  "renewIntervalJitter rnd cfg =
     (case Int63n rnd (go_div (Expiration cfg) 10) of
        Panic p \<Rightarrow> Panic p
      | Return r \<Rightarrow> Return (go_div (Expiration cfg) 3 + r))"

section \<open>The goroutine\<close>

definition watcher_cap :: nat where "watcher_cap = 8"

record watchdog =
  wd_isLeader :: bool
  wd_watcher :: "int list"
  wd_pending :: "(int \<times> bool) option"
  wd_closed :: bool
  wd_events :: "int list"

definition new_watchdog :: watchdog where
  "new_watchdog = \<lparr>wd_isLeader = False, wd_watcher = [], wd_pending = None, wd_closed = False,
     wd_events = []\<rparr>"

text \<open>Entering \<^verbatim>\<open>send(event)\<close>; the flag tells whether the goroutine returns after it.\<close>

definition send :: "int \<Rightarrow> bool \<Rightarrow> watchdog \<Rightarrow> watchdog" where
  "send event return_after w =
     w\<lparr>wd_pending := Some (event, return_after), wd_events := wd_events w @ [event]\<rparr>"

text \<open>Leaving \<^verbatim>\<open>send\<close>: the deferred \<^verbatim>\<open>close(watcher)\<close> runs when the goroutine returns.\<close>

definition send_done :: "bool \<Rightarrow> watchdog \<Rightarrow> watchdog" where
  "send_done delivered w =
     (case wd_pending w of None \<Rightarrow> w
      | Some (event, return_after) \<Rightarrow>
          w\<lparr>wd_pending := None,
            wd_watcher := (if delivered then wd_watcher w @ [event] else wd_watcher w),
            wd_closed := return_after\<rparr>)"

text \<open>The attempt before the loop, and the branch of the ticker.\<close>

definition try_lock ::
    "net \<Rightarrow> Config \<Rightarrow> string \<Rightarrow> 'r redis_server \<times> watchdog \<Rightarrow> 'r redis_server \<times> watchdog" where
  "try_lock n cfg val sw =
     (case sw of (s, w) \<Rightarrow>
        (case Lock n s (ElectionName cfg) val (Expiration cfg) of
           (s', ok, _) \<Rightarrow> (s', if ok then send TakenAcquire False (w\<lparr>wd_isLeader := True\<rparr>) else w)))"

definition on_tick ::
    "net \<Rightarrow> Config \<Rightarrow> string \<Rightarrow> 'r redis_server \<times> watchdog \<Rightarrow> 'r redis_server \<times> watchdog" where
  "on_tick n cfg val sw =
     (case sw of (s, w) \<Rightarrow>
        if \<not> wd_isLeader w then try_lock n cfg val (s, w)
        else
          (case ExtendLockTTL n s (ElectionName cfg) val (Expiration cfg) of
             (s', ok, _) \<Rightarrow>
               (s', if \<not> ok then send LostAcquire False (w\<lparr>wd_isLeader := False\<rparr>) else w)))"

text \<open>The branch of \<^verbatim>\<open>ctx.Done()\<close>: it returns only for the leader.\<close>

definition on_done ::
    "net \<Rightarrow> Config \<Rightarrow> string \<Rightarrow> 'r redis_server \<times> watchdog \<Rightarrow> 'r redis_server \<times> watchdog" where
  "on_done n cfg val sw =
     (case sw of (s, w) \<Rightarrow>
        if wd_isLeader w then
          (case Unlock n s (ElectionName cfg) val of
             (s', _) \<Rightarrow> (s', send LostAcquire True (w\<lparr>wd_isLeader := False\<rparr>)))
        else (s, w))"

text \<open>
  \<^verbatim>\<open>Elect\<close>: the channel with the goroutine behind it. A context that is done already keeps the
  goroutine from starting; a panic of \<^verbatim>\<open>Int63n\<close> is recovered and the deferred close runs.
\<close>

definition Elect :: "int \<Rightarrow> bool \<Rightarrow> Config \<Rightarrow> (Config \<times> watchdog) call" where
  "Elect rnd done_at_start cfg =
     (case Elect_config cfg of
        Panic p \<Rightarrow> Panic p
      | Return cfg' \<Rightarrow>
          Return (cfg',
            fst (GoRecover done_at_start
              (\<lambda>w. case renewIntervalJitter rnd cfg' of
                     Panic p \<Rightarrow> (w\<lparr>wd_closed := True\<rparr>, Some p)
                   | Return i \<Rightarrow> (w, None))
              new_watchdog)))"

text \<open>A sequence of iterations of the loop, each taking one of the two branches.\<close>

datatype branch = Tick net | Done net

fun iterate ::
    "Config \<Rightarrow> string \<Rightarrow> branch list \<Rightarrow> 'r redis_server \<times> watchdog \<Rightarrow> 'r redis_server \<times> watchdog" where
  "iterate cfg val [] sw = sw"
| "iterate cfg val (Tick n # bs) sw = iterate cfg val bs (on_tick n cfg val sw)"
| "iterate cfg val (Done n # bs) sw = iterate cfg val bs (on_done n cfg val sw)"

section \<open>Several nodes and one server\<close>

text \<open>
  The processes taking part in an election are numbered; process \<open>i\<close> uses the value \<open>val i\<close> (a fresh
  UUID) and has its own context. A step is one branch of one goroutine, a delivery or the end of a
  blocked \<^verbatim>\<open>send\<close>, a receive by the process's supervisor, the cancellation of a context, or time
  passing at the server.
\<close>

record 'r election =
  el_server :: "'r redis_server"
  el_node :: "nat \<Rightarrow> watchdog"
  el_ctx_done :: "nat \<Rightarrow> bool"

definition set_node :: "'r election \<Rightarrow> nat \<Rightarrow> 'r redis_server \<times> watchdog \<Rightarrow> 'r election" where
  "set_node e i sw = e\<lparr>el_server := fst sw, el_node := (el_node e)(i := snd sw)\<rparr>"

definition in_loop :: "watchdog \<Rightarrow> bool" where
  "in_loop w \<longleftrightarrow> wd_pending w = None \<and> \<not> wd_closed w"

inductive elect_step :: "Config \<Rightarrow> (nat \<Rightarrow> string) \<Rightarrow> 'r election \<Rightarrow> 'r election \<Rightarrow> bool"
  for cfg :: Config and val :: "nat \<Rightarrow> string" where
  el_tick: "in_loop (el_node e i) \<Longrightarrow>
    elect_step cfg val e (set_node e i (on_tick n cfg (val i) (el_server e, el_node e i)))"
| el_done: "in_loop (el_node e i) \<Longrightarrow> el_ctx_done e i \<Longrightarrow>
    elect_step cfg val e (set_node e i (on_done n cfg (val i) (el_server e, el_node e i)))"
| el_deliver: "wd_pending (el_node e i) \<noteq> None \<Longrightarrow> length (wd_watcher (el_node e i)) < watcher_cap \<Longrightarrow>
    elect_step cfg val e (set_node e i (el_server e, send_done True (el_node e i)))"
| el_drop: "wd_pending (el_node e i) \<noteq> None \<Longrightarrow> el_ctx_done e i \<Longrightarrow>
    elect_step cfg val e (set_node e i (el_server e, send_done False (el_node e i)))"
| el_receive: "wd_watcher (el_node e i) = ev # evs \<Longrightarrow>
    elect_step cfg val e (set_node e i (el_server e, (el_node e i)\<lparr>wd_watcher := evs\<rparr>))"
| el_cancel: "elect_step cfg val e (e\<lparr>el_ctx_done := (el_ctx_done e)(i := True)\<rparr>)"
| el_time: "0 \<le> d \<Longrightarrow> elect_step cfg val e (e\<lparr>el_server := srv_advance (el_server e) d\<rparr>)"

definition elect_init :: "'r election \<Rightarrow> bool" where
  "elect_init e \<longleftrightarrow> srv_invar (el_server e) \<and> el_node e = (\<lambda>_. new_watchdog)"

definition node_inv :: "watchdog \<Rightarrow> bool" where
  "node_inv w \<longleftrightarrow> alternates TakenAcquire LostAcquire (wd_events w) \<and>
     (wd_isLeader w \<longleftrightarrow> wd_events w \<noteq> [] \<and> last (wd_events w) = TakenAcquire) \<and>
     length (wd_watcher w) \<le> watcher_cap \<and>
     (wd_pending w \<noteq> None \<longrightarrow> wd_events w \<noteq> [] \<and> fst (the (wd_pending w)) = last (wd_events w)) \<and>
     subseq (wd_watcher w) (if wd_pending w = None then wd_events w else butlast (wd_events w))"

definition elect_inv :: "'r election \<Rightarrow> bool" where
  "elect_inv e \<longleftrightarrow> srv_invar (el_server e) \<and> (\<forall>i. node_inv (el_node e i))"

section \<open>Invariant of the election\<close>

lemma Lost_Taken [simp]: "LostAcquire \<noteq> TakenAcquire" "TakenAcquire \<noteq> LostAcquire"
  by (simp_all add: LostAcquire_def TakenAcquire_def)

lemma node_inv_send:
  assumes "node_inv w" and "wd_pending w = None"
    and "wd_isLeader w \<longleftrightarrow> ev = LostAcquire" and "ev = LostAcquire \<or> ev = TakenAcquire"
  shows "node_inv (send ev ret (w\<lparr>wd_isLeader := (ev = TakenAcquire)\<rparr>))"
proof -
  have "wd_events w \<noteq> [] \<Longrightarrow> last (wd_events w) \<noteq> TakenAcquire \<Longrightarrow> ev = TakenAcquire"
    and "wd_events w \<noteq> [] \<Longrightarrow> last (wd_events w) = TakenAcquire \<Longrightarrow> ev = LostAcquire"
    and "wd_events w = [] \<Longrightarrow> ev = TakenAcquire"
    using assms by (auto simp: node_inv_def)
  then have "alternates TakenAcquire LostAcquire (wd_events w @ [ev])"
    using assms(1) by (auto simp: alternates_snoc node_inv_def dest: alternates_last)
  then show ?thesis using assms by (auto simp: node_inv_def send_def)
qed

lemma node_inv_try_lock:
  assumes "node_inv w" and "wd_pending w = None" and "\<not> wd_isLeader w"
  shows "node_inv (snd (try_lock n cfg v (s, w)))"
  using node_inv_send [OF assms(1,2), of TakenAcquire False] assms
  by (auto simp: try_lock_def TakenAcquire_def LostAcquire_def split: prod.splits)

lemma node_inv_on_tick [inv_intros]:
  assumes "node_inv w" and "in_loop w"
  shows "node_inv (snd (on_tick n cfg v (s, w)))"
  using node_inv_send [OF assms(1), of LostAcquire False] node_inv_try_lock [OF assms(1), of n cfg v s] assms
  by (auto simp: on_tick_def in_loop_def TakenAcquire_def LostAcquire_def split: prod.splits)

lemma node_inv_on_done [inv_intros]:
  assumes "node_inv w" and "in_loop w"
  shows "node_inv (snd (on_done n cfg v (s, w)))"
  using node_inv_send [OF assms(1), of LostAcquire True] assms
  by (auto simp: on_done_def in_loop_def TakenAcquire_def LostAcquire_def split: prod.splits)

lemma node_inv_send_done [inv_intros]:
  assumes "node_inv w" and "delivered \<Longrightarrow> length (wd_watcher w) < watcher_cap"
  shows "node_inv (send_done delivered w)"
proof (cases "wd_pending w")
  case None
  then show ?thesis using assms by (simp add: send_done_def)
next
  case (Some p)
  then have ev: "wd_events w = butlast (wd_events w) @ [fst p]"
    and sub: "subseq (wd_watcher w) (butlast (wd_events w))"
    using assms(1) by (auto simp: node_inv_def)
  from sub have "subseq (wd_watcher w @ [fst p]) (wd_events w)"
    by (subst ev) (rule list_emb_append_mono, auto)
  moreover from sub have "subseq (wd_watcher w) (wd_events w)"
    by (subst ev) (rule list_emb_prefix)
  ultimately show ?thesis
    using assms Some by (auto simp: node_inv_def send_done_def split: prod.splits)
qed

lemma node_inv_receive [inv_intros]:
  "node_inv w \<Longrightarrow> wd_watcher w = ev # evs \<Longrightarrow> node_inv (w\<lparr>wd_watcher := evs\<rparr>)"
  by (auto simp: node_inv_def dest: subseq_Cons')

lemma try_lock_invar: "srv_invar s \<Longrightarrow> srv_invar (fst (try_lock n cfg v (s, w)))"
  by (auto simp: try_lock_def split: prod.splits dest: Lock_view(1))

lemma on_tick_invar [inv_intros]: "srv_invar s \<Longrightarrow> srv_invar (fst (on_tick n cfg v (s, w)))"
  by (auto simp: on_tick_def try_lock_invar split: prod.splits dest: ExtendLockTTL_view(1))

lemma on_done_invar [inv_intros]: "srv_invar s \<Longrightarrow> srv_invar (fst (on_done n cfg v (s, w)))"
  by (auto simp: on_done_def split: prod.splits dest: Unlock_view(1))

lemma elect_step_inv:
  assumes "elect_step cfg val e e'" and "elect_inv e"
  shows "elect_inv e'"
  using assms
  by (cases rule: elect_step.cases)
    (auto simp: elect_inv_def set_node_def inv_intros)

interpretation election: inductive_invariant elect_init "elect_step cfg val" elect_inv
  for cfg :: Config and val :: "nat \<Rightarrow> string"
proof
  show "elect_init s \<Longrightarrow> elect_inv s" for s :: "'r election"
    by (simp add: elect_init_def elect_inv_def new_watchdog_def node_inv_def)
qed (rule elect_step_inv)

section \<open>Renewal\<close>

lemma jitter_arith:
  fixes a b r E :: int
  assumes "3 * a \<le> E" and "10 * b \<le> E" and "r < b"
  shows "30 * (a + r) < 13 * E"
proof -
  have "30 * a \<le> 10 * E" "30 * r < 3 * E" using assms by auto
  then show ?thesis by (simp add: distrib_left)
qed

lemma renewIntervalJitter_bounds:
  assumes "10 \<le> Expiration cfg"
  obtains i where "renewIntervalJitter rnd cfg = Return i" and "Expiration cfg div 3 \<le> i"
    and "30 * i < 13 * Expiration cfg"
proof
  let ?n = "Expiration cfg div 10"
  have n: "0 < ?n" using assms by simp
  then have "0 \<le> rnd mod ?n" "rnd mod ?n < ?n" by simp_all
  show "renewIntervalJitter rnd cfg = Return (Expiration cfg div 3 + rnd mod ?n)"
    using assms n by (simp add: renewIntervalJitter_def Int63n_def go_div_nonneg)
  show "Expiration cfg div 3 \<le> Expiration cfg div 3 + rnd mod ?n" using n by simp
  have "3 * (Expiration cfg div 3) \<le> Expiration cfg" "10 * ?n \<le> Expiration cfg" by linarith+
  then show "30 * (Expiration cfg div 3 + rnd mod ?n) < 13 * Expiration cfg"
    using \<open>rnd mod ?n < ?n\<close> by (rule jitter_arith)
qed

lemma Milliseconds_pos: "0 \<le> d \<Longrightarrow> Milliseconds d = d div Millisecond"
  by (simp add: Milliseconds_def go_div_nonneg Millisecond_def)

section \<open>Properties\<close>

text \<open>
  C11. In every state reachable by any interleaving of the processes, with messages lost at will, the
  events a watchdog reports alternate between taken and lost, starting with taken; \<^verbatim>\<open>isLeader\<close> tells
  which came last; the channel never holds more than its capacity and what it holds keeps the order
  of the events.
\<close>

theorem election_events_alternate:
  assumes "reachable elect_init (elect_step cfg val) e"
  shows "alternates TakenAcquire LostAcquire (wd_events (el_node e i)) \<and>
    (wd_isLeader (el_node e i) \<longleftrightarrow>
       wd_events (el_node e i) \<noteq> [] \<and> last (wd_events (el_node e i)) = TakenAcquire) \<and>
    length (wd_watcher (el_node e i)) \<le> watcher_cap \<and>
    subseq (wd_watcher (el_node e i)) (wd_events (el_node e i))"
proof -
  have "node_inv (el_node e i)"
    using election.invariant [OF assms] by (simp add: elect_inv_def)
  moreover have "subseq (butlast xs) xs" for xs :: "int list"
    by (rule prefix_imp_subseq) (rule prefixeq_butlast)
  ultimately show ?thesis
    by (auto simp: node_inv_def split: if_splits intro: subseq_order.order_trans)
qed

theorem election_events_alternate_witness:
  "\<exists>e :: (string \<rightharpoonup> string \<times> int) election.
     reachable elect_init (elect_step \<lparr>ElectionName = ''cron'', Expiration = 30 * Second\<rparr> (\<lambda>i. replicate i CHR ''x'')) e \<and>
     wd_events (el_node e 0) = [TakenAcquire] \<and> wd_isLeader (el_node e 0)"
proof -
  let ?cfg = "\<lparr>ElectionName = ''cron'', Expiration = 30 * Second\<rparr>"
  let ?val = "\<lambda>i. replicate i CHR ''x''"
  let ?e = "\<lparr>el_server = map_redis Map.empty, el_node = (\<lambda>_. new_watchdog), el_ctx_done = (\<lambda>_. False)\<rparr>"
  let ?e1 = "set_node ?e 0 (on_tick Reached ?cfg (?val 0) (el_server ?e, el_node ?e 0))"
  have "reachable elect_init (elect_step ?cfg ?val) ?e"
    by (rule reach_init) (simp add: elect_init_def)
  moreover have "elect_step ?cfg ?val ?e ?e1"
    by (rule el_tick) (simp add: in_loop_def new_watchdog_def)
  ultimately have r: "reachable elect_init (elect_step ?cfg ?val) ?e1" by (rule reach_step)
  have ev: "wd_events (el_node ?e1 0) = [TakenAcquire]"
    by (simp add: set_node_def on_tick_def try_lock_def new_watchdog_def send_def Lock_def Eval_def
        lockScript_def map_redis_def map_redis_ops_def eval_result_def Milliseconds_def go_div_def
        Second_def Millisecond_def)
  with election_events_alternate [OF r, of 0] r show ?thesis by (intro exI [of _ ?e1]) simp
qed

text \<open>
  A stale leader is demoted at its next renewal: while the value of another process holds the
  lock, a tick of this process leaves the lock alone and ends with \<^verbatim>\<open>isLeader\<close> false, whatever
  happens to its message.
\<close>

theorem stale_leader_demoted:
  assumes "srv_invar s" and "holder s (ElectionName cfg) = Some u" and "u \<noteq> v"
    and "on_tick n cfg v (s, w) = (s', w')"
  shows "\<not> wd_isLeader w' \<and> holder s' = holder s"
proof (cases "wd_isLeader w")
  case True
  obtain s1 ok e where x: "ExtendLockTTL n s (ElectionName cfg) v (Expiration cfg) = (s1, ok, e)"
    using prod_cases3 by blast
  with redis.extend_keeps_other [OF assms(1) _ x] assms True show ?thesis
    by (auto simp: on_tick_def send_def)
next
  case False
  obtain s1 ok e where x: "Lock n s (ElectionName cfg) v (Expiration cfg) = (s1, ok, e)"
    using prod_cases3 by blast
  with redis.lock_keeps_other [OF assms(1,2) x] assms False show ?thesis
    by (auto simp: on_tick_def try_lock_def)
qed

theorem stale_leader_demoted_witness:
  "\<not> wd_isLeader (snd (on_tick Reached \<lparr>ElectionName = ''cron'', Expiration = 30 * Second\<rparr> ''b''
      (map_redis [lockKeyPrefix @ ''cron'' \<mapsto> (''a'', 30000)], new_watchdog\<lparr>wd_isLeader := True\<rparr>)))"
proof -
  let ?cfg = "\<lparr>ElectionName = ''cron'', Expiration = 30 * Second\<rparr>"
  let ?s = "map_redis [lockKeyPrefix @ ''cron'' \<mapsto> (''a'', 30000)]"
  have h: "holder ?s (ElectionName ?cfg) = Some ''a''" by (simp add: holder_def map_redis_view)
  have ne: "''a'' \<noteq> ''b''" by simp
  from stale_leader_demoted [OF map_redis_invar h ne surjective_pairing] show ?thesis by blast
qed

text \<open>
  The interval between renewals is at least a third and less than thirteen thirtieths of the
  lease, so a leader gets two attempts within every lease; a missing expiration is 30 seconds. An
  expiration below ten nanoseconds makes \<^verbatim>\<open>rand.Int63n\<close> panic: the goroutine ends at once and closes
  the channel without an event.
\<close>

theorem Elect_renew_interval:
  assumes "Elect rnd False cfg = Return (cfg', w)"
  shows "0 < Expiration cfg' \<and>
    (if Expiration cfg' < 10 then wd_closed w \<and> wd_events w = []
     else in_loop w \<and> (\<exists>i. renewIntervalJitter rnd cfg' = Return i \<and> Expiration cfg' div 3 \<le> i \<and>
       30 * i < 13 * Expiration cfg'))"
proof (cases "Expiration cfg' < 10")
  case True
  have "0 < Expiration cfg'"
    using assms by (auto simp: Elect_def Elect_config_def DefaultLeaderExpiration_def split: if_splits)
  with True have "renewIntervalJitter rnd cfg' = Panic ''invalid argument to Int63n''"
    by (simp add: renewIntervalJitter_def Int63n_def go_div_nonneg)
  with assms True \<open>0 < Expiration cfg'\<close> show ?thesis
    by (auto simp: Elect_def GoRecover_started new_watchdog_def split: call.splits)
next
  case False
  then obtain i where i: "renewIntervalJitter rnd cfg' = Return i"
    "Expiration cfg' div 3 \<le> i" "30 * i < 13 * Expiration cfg'"
    using renewIntervalJitter_bounds [of cfg' rnd] by auto
  with assms have "w = new_watchdog"
    by (auto simp: Elect_def GoRecover_started split: call.splits)
  with i False show ?thesis by (auto simp: in_loop_def new_watchdog_def)
qed

theorem Elect_renew_interval_witness:
  "\<exists>i. renewIntervalJitter 5 \<lparr>ElectionName = ''cron'', Expiration = 30 * Second\<rparr> = Return i \<and>
     10 * Second \<le> i \<and> i < 13 * Second"
proof -
  let ?cfg = "\<lparr>ElectionName = ''cron'', Expiration = 30 * Second\<rparr>"
  have "Elect 5 False \<lparr>ElectionName = ''cron'', Expiration = 0\<rparr> = Return (?cfg, new_watchdog)"
    by (simp add: Elect_def Elect_config_def DefaultLeaderExpiration_def GoRecover_started
        renewIntervalJitter_def Int63n_def Second_def go_div_def)
  from Elect_renew_interval [OF this] show ?thesis by (auto simp: Second_def)
qed

text \<open>
  C13. A leader whose renewals reach the server keeps the lock: if its lease is full and the server has
  seen no more time pass than one renewal interval, the tick extends the lease to its full length and
  reports nothing. The lease has to be at least two milliseconds, the resolution of the server.
\<close>

theorem leader_keeps_lock:
  assumes "srv_invar s" and "wd_isLeader w"
    and "lock_view s (ElectionName cfg) = Some (v, Milliseconds (Expiration cfg))"
    and "2 * Millisecond \<le> Expiration cfg"
    and "renewIntervalJitter rnd cfg = Return i" and "0 \<le> d" and "d * Millisecond \<le> i"
    and "on_tick Reached cfg v (srv_advance s d, w) = (s', w')"
  shows "w' = w \<and> lock_view s' (ElectionName cfg) = Some (v, Milliseconds (Expiration cfg))"
proof -
  let ?k = "ElectionName cfg" and ?ms = "Milliseconds (Expiration cfg)" and ?s = "srv_advance s d"
  obtain j where j: "renewIntervalJitter rnd cfg = Return j" "30 * j < 13 * Expiration cfg"
    using renewIntervalJitter_bounds [of cfg rnd] assms(4) by (auto simp: Millisecond_def)
  have ms: "?ms = Expiration cfg div 1000000" and "2000000 \<le> Expiration cfg"
    using assms(4) by (simp_all add: Milliseconds_pos Millisecond_def)
  then have "d < ?ms" and "0 < ?ms"
    using j assms(5,7) by (auto simp: Millisecond_def)
  then have h: "holder ?s ?k = Some v"
    using assms(1,3,6) by (simp add: holder_def srv_advance_view)
  obtain s1 ok e where x: "ExtendLockTTL Reached ?s ?k v (Expiration cfg) = (s1, ok, e)"
    using prod_cases3 by blast
  note inv = srv_advance_invar [OF assms(1), of d]
  from ExtendLockTTL_view(4) [OF inv x] h have "ok" by simp
  moreover obtain s2 r where y: "extendTTLScript ?s (lockKeyPrefix @ ?k) v ?ms = (s2, r)" by fastforce
  ultimately have "s' = s2" "w' = w"
    using x assms(2,8) by (auto simp: on_tick_def ExtendLockTTL_def Eval_def)
  with extendTTLScript_view [OF inv y] h \<open>0 < ?ms\<close> show ?thesis by simp
qed

theorem leader_keeps_lock_witness:
  "snd (on_tick Reached \<lparr>ElectionName = ''cron'', Expiration = 30 * Second\<rparr> ''a''
     (srv_advance (map_redis [lockKeyPrefix @ ''cron'' \<mapsto> (''a'', 30000)]) 10000,
      new_watchdog\<lparr>wd_isLeader := True\<rparr>)) = new_watchdog\<lparr>wd_isLeader := True\<rparr>"
proof -
  let ?cfg = "\<lparr>ElectionName = ''cron'', Expiration = 30 * Second\<rparr>"
  let ?s = "map_redis [lockKeyPrefix @ ''cron'' \<mapsto> (''a'', 30000)]"
  let ?w = "new_watchdog\<lparr>wd_isLeader := True\<rparr>"
  have a: "lock_view ?s (ElectionName ?cfg) = Some (''a'', Milliseconds (Expiration ?cfg))"
    by (simp add: map_redis_view Milliseconds_def Second_def Millisecond_def go_div_def)
  have b: "2 * Millisecond \<le> Expiration ?cfg" "wd_isLeader ?w" "(0::int) \<le> 10000"
    by (simp_all add: Millisecond_def Second_def)
  have c: "renewIntervalJitter 5 ?cfg = Return (10 * Second + 5)"
    by (simp add: renewIntervalJitter_def Int63n_def Second_def go_div_def)
  have d: "10000 * Millisecond \<le> 10 * Second + 5" by (simp add: Millisecond_def Second_def)
  from leader_keeps_lock [OF map_redis_invar b(2) a b(1) c b(3) d surjective_pairing] show ?thesis by simp
qed

text \<open>
  C38. A watchdog that is not the leader never returns once its context is done: the branch of
  \<^verbatim>\<open>ctx.Done()\<close> does nothing, and a tick cannot take the lock because the client refuses a call with a
  finished context. However many iterations the loop makes, the state is the same and the channel stays
  open.
\<close>

theorem follower_never_stops:
  assumes "in_loop w" and "\<not> wd_isLeader w"
    and "\<forall>b \<in> set bs. case b of Tick n \<Rightarrow> (\<exists>e. n = RequestLost e) | Done n \<Rightarrow> True"
  shows "iterate cfg v bs (s, w) = (s, w) \<and> \<not> wd_closed (snd (iterate cfg v bs (s, w)))"
proof -
  have t: "on_tick (RequestLost e) cfg v (s, w) = (s, w)" for e
    using assms(2) by (simp add: on_tick_def try_lock_def Lock_def Eval_def eval_result_def)
  have d: "on_done n cfg v (s, w) = (s, w)" for n
    using assms(2) by (simp add: on_done_def)
  have "iterate cfg v bs (s, w) = (s, w)"
    using assms(3)
  proof (induction bs)
    case (Cons b bs)
    then show ?case by (cases b) (auto simp: t d)
  qed simp
  with assms(1) show ?thesis by (simp add: in_loop_def)
qed

theorem follower_never_stops_witness:
  "iterate \<lparr>ElectionName = ''cron'', Expiration = Second\<rparr> ''b''
     (replicate 1000 (Done Reached) @ [Tick (RequestLost ''context canceled'')])
     (map_redis Map.empty, new_watchdog) = (map_redis Map.empty, new_watchdog)"
  using follower_never_stops [of new_watchdog
      "replicate 1000 (Done Reached) @ [Tick (RequestLost ''context canceled'')]"
      "\<lparr>ElectionName = ''cron'', Expiration = Second\<rparr>" "''b''" "map_redis Map.empty"]
  by (simp add: new_watchdog_def in_loop_def)

end
