(* ===== verification/Kernel.thy ===== *)
theory Kernel
  imports Kernel_Shutdown Watchdog
begin

text \<open>
  The rest of \<^verbatim>\<open>kernel/kernel.go\<close>: the supervisors that start and stop a job with the leadership
  (\<^verbatim>\<open>RegisterWatchdogsLeadership\<close>, \<^verbatim>\<open>StartWatchdogsLeadership\<close>), \<^verbatim>\<open>Stop\<close>, the signal goroutine of
  \<^verbatim>\<open>Start\<close>, \<^verbatim>\<open>RegisterRecovers\<close>, the options and \<^verbatim>\<open>RunKernel\<close>.

  \<open>'w\<close> is the rest of the process, changed by the callbacks and hooks. A supervisor keeps the events
  waiting in its channel, whether the channel is closed, its own cancellation, the number of
  goroutines listening for it and whether its mutex was left locked by a panic. \<open>sup_calls\<close> records
  the callbacks that were called; nothing reads it.
\<close>

section \<open>Data\<close>

datatype callback = CbStart | CbStop

record 'w LeaderSupervisor =
  SupervisorName :: string
  Watcher :: "int list"
  Watcher_closed :: bool
  sup_Start :: "'w body"
  sup_Stop :: "'w body"
  sup_cancelled :: bool
  sup_locked :: bool
  sup_goroutines :: nat
  Working :: bool
  sup_calls :: "callback list"

record KernelConfig =
  KernelId :: string
  Cores :: int
  HeapOverflow :: int

record 'w kernel =
  k_id :: string
  k_config :: KernelConfig
  k_ctx_done :: bool
  k_shutdown :: "'w linkedList"
  k_leaderSupervisors :: "'w LeaderSupervisor list"
  k_sig :: "string list"
  k_sig_reader :: bool
  k_GCPercent :: int
  k_GOMAXPROCS :: int
  k_world :: 'w

definition newKernel :: "int \<Rightarrow> int \<Rightarrow> 'w \<Rightarrow> 'w kernel" where
  "newKernel gc procs w =
     \<lparr>k_id = '''', k_config = \<lparr>KernelId = '''', Cores = 0, HeapOverflow = 0\<rparr>, k_ctx_done = False,
      k_shutdown = new_linkedList, k_leaderSupervisors = [], k_sig = [], k_sig_reader = False,
      k_GCPercent = gc, k_GOMAXPROCS = procs, k_world = w\<rparr>"

text \<open>\<^verbatim>\<open>runtime.GOMAXPROCS(n)\<close> changes the setting for a positive \<open>n\<close> only.\<close>

definition GOMAXPROCS :: "int \<Rightarrow> 'w kernel \<Rightarrow> 'w kernel" where
  "GOMAXPROCS n k = (if 0 < n then k\<lparr>k_GOMAXPROCS := n\<rparr> else k)"

definition NewDefaultKernel ::
    "string \<Rightarrow> int \<Rightarrow> int \<Rightarrow> bool \<Rightarrow> int \<Rightarrow> int \<Rightarrow> 'w \<Rightarrow> 'w kernel" where
  "NewDefaultKernel uuid gc procs is_done cores heapOverflow w =
     (let heap = (if heapOverflow = 0 then 100 else heapOverflow)
      in GOMAXPROCS cores
           ((newKernel gc procs w)\<lparr>k_id := uuid, k_ctx_done := is_done, k_GCPercent := heap\<rparr>))"

text \<open>\<open>auto_procs\<close> is what \<^verbatim>\<open>maxprocs.Set\<close> chooses, or \<open>None\<close> when it fails.\<close>

definition setUp :: "int option \<Rightarrow> 'w kernel \<Rightarrow> 'w kernel" where
  "setUp auto_procs k =
     (let k1 = k\<lparr>k_GCPercent := HeapOverflow (k_config k)\<rparr>
      in if 0 < Cores (k_config k) then GOMAXPROCS (Cores (k_config k)) k1
         else case auto_procs of None \<Rightarrow> k1 | Some n \<Rightarrow> k1\<lparr>k_GOMAXPROCS := n\<rparr>)"

section \<open>Supervisors\<close>

definition RegisterWatchdogsLeadership ::
    "'w LeaderSupervisor option \<Rightarrow> 'w kernel \<Rightarrow> 'w kernel" where
  "RegisterWatchdogsLeadership supervisor k =
     (case supervisor of None \<Rightarrow> k
      | Some s \<Rightarrow>
          k\<lparr>k_leaderSupervisors := k_leaderSupervisors k @ [s\<lparr>sup_cancelled := False\<rparr>]\<rparr>)"

text \<open>One goroutine per supervisor; \<^verbatim>\<open>GoRecover\<close> starts none when the kernel's context is done.\<close>

definition StartWatchdogsLeadership :: "'w kernel \<Rightarrow> 'w kernel" where
  "StartWatchdogsLeadership k =
     k\<lparr>k_leaderSupervisors := map (\<lambda>s.
         fst (GoRecover (k_ctx_done k) (\<lambda>s. (s\<lparr>sup_goroutines := sup_goroutines s + 1\<rparr>, None)) s))
       (k_leaderSupervisors k)\<rparr>"

text \<open>
  The two branches of a received event. A panic of the callback unwinds the goroutine: \<^verbatim>\<open>GoRecover\<close>
  swallows it, and the mutex stays locked, since no deferred call unlocks it.
\<close>

definition on_lost :: "'w LeaderSupervisor \<times> 'w \<Rightarrow> 'w LeaderSupervisor \<times> 'w" where
  "on_lost sw =
     (case sw of (s, w) \<Rightarrow>
        if Working s then
          (case sup_Stop s w of
             (w', None) \<Rightarrow> (s\<lparr>sup_calls := sup_calls s @ [CbStop], Working := False\<rparr>, w')
           | (w', Some r) \<Rightarrow>
               (s\<lparr>sup_calls := sup_calls s @ [CbStop], sup_locked := True,
                  sup_goroutines := sup_goroutines s - 1\<rparr>, w'))
        else (s, w))"

definition on_taken :: "'w LeaderSupervisor \<times> 'w \<Rightarrow> 'w LeaderSupervisor \<times> 'w" where
  "on_taken sw =
     (case sw of (s, w) \<Rightarrow>
        if \<not> Working s then
          (case sup_Start s w of
             (w', None) \<Rightarrow> (s\<lparr>sup_calls := sup_calls s @ [CbStart], Working := True\<rparr>, w')
           | (w', Some r) \<Rightarrow>
               (s\<lparr>sup_calls := sup_calls s @ [CbStart], sup_locked := True,
                  sup_goroutines := sup_goroutines s - 1\<rparr>, w'))
        else (s, w))"

definition handle_event ::
    "int \<Rightarrow> 'w LeaderSupervisor \<times> 'w \<Rightarrow> 'w LeaderSupervisor \<times> 'w" where
  "handle_event res sw =
     (if res = LostAcquire then on_lost sw else if res = TakenAcquire then on_taken sw else sw)"

text \<open>The body of the loop of \<^verbatim>\<open>Kernel.Stop\<close> for one supervisor: \<open>None\<close> while its mutex is held.\<close>

definition stop_supervisor ::
    "'w LeaderSupervisor \<times> 'w \<Rightarrow> ('w LeaderSupervisor \<times> 'w \<times> string option) option" where
  "stop_supervisor sw =
     (case sw of (s, w) \<Rightarrow>
        if sup_locked s then None
        else
          let s1 = s\<lparr>sup_cancelled := True\<rparr> in
          if Working s1 then
            (case sup_Stop s1 w of
               (w', None) \<Rightarrow> Some (s1\<lparr>sup_calls := sup_calls s1 @ [CbStop], Working := False\<rparr>, w', None)
             | (w', Some r) \<Rightarrow>
                 Some (s1\<lparr>sup_calls := sup_calls s1 @ [CbStop], sup_locked := True\<rparr>, w', Some r))
          else Some (s1, w, None))"

section \<open>Stop\<close>

text \<open>How a call of \<^verbatim>\<open>Stop\<close> ends: it returns, waits for ever on a mutex, or panics.\<close>

datatype stop_result = Stopped | Blocked | Panicked string

fun stop_supervisors ::
    "'w LeaderSupervisor list \<Rightarrow> 'w \<Rightarrow> 'w LeaderSupervisor list \<times> 'w \<times> stop_result" where
  "stop_supervisors [] w = ([], w, Stopped)"
| "stop_supervisors (s # ss) w =
     (case stop_supervisor (s, w) of
        None \<Rightarrow> (s # ss, w, Blocked)
      | Some (s', w', Some r) \<Rightarrow> (s' # ss, w', Panicked r)
      | Some (s', w', None) \<Rightarrow>
          (case stop_supervisors ss w' of (ss', w'', res) \<Rightarrow> (s' # ss', w'', res)))"

text \<open>The last component lists the names of the hooks that ran.\<close>

definition Kernel_Stop :: "'w kernel \<Rightarrow> 'w kernel \<times> stop_result \<times> string list" where
  "Kernel_Stop k =
     (case stop_supervisors (k_leaderSupervisors k) (k_world k) of
        (ss, w, res) \<Rightarrow>
          let k1 = k\<lparr>k_leaderSupervisors := ss, k_world := w\<rparr> in
          if res \<noteq> Stopped then (k1, res, [])
          else
            (case shutdownAllAndDeleteAllCanceled (k_shutdown k1) w of
               None \<Rightarrow> (k1, Blocked, [])
             | Some (l, w', names, p) \<Rightarrow>
                 (k1\<lparr>k_shutdown := l, k_world := w'\<rparr>,
                  (case p of None \<Rightarrow> Stopped | Some r \<Rightarrow> Panicked r), names)))"

section \<open>Signals\<close>

text \<open>
  \<^verbatim>\<open>Start\<close> subscribes the channel \<^verbatim>\<open>sig\<close> (capacity 1) and starts the goroutine that waits for one
  signal. \<^verbatim>\<open>signal.Notify\<close> never blocks: a signal that finds the channel full is dropped.
\<close>

definition Start :: "'w kernel \<Rightarrow> 'w kernel" where
  "Start k = fst (GoRecover (k_ctx_done k) (\<lambda>k. (k\<lparr>k_sig_reader := True\<rparr>, None)) k)"

definition os_signal :: "string \<Rightarrow> 'w kernel \<Rightarrow> 'w kernel" where
  "os_signal s k = (if length (k_sig k) < 1 then k\<lparr>k_sig := k_sig k @ [s]\<rparr> else k)"

definition signal_goroutine :: "'w kernel \<Rightarrow> 'w kernel" where
  "signal_goroutine k =
     (if k_sig_reader k \<and> k_sig k \<noteq> [] then
        k\<lparr>k_sig := tl (k_sig k), k_ctx_done := True, k_sig_reader := False\<rparr>
      else k)"

text \<open>
  The deferred function of \<^verbatim>\<open>RegisterRecovers\<close>: \<open>None\<close> when the send can never proceed, because the
  channel is full and its reader is gone.
\<close>

definition RegisterRecovers :: "string option \<Rightarrow> 'w kernel \<Rightarrow> 'w kernel option" where
  "RegisterRecovers recovered k =
     (case recovered of None \<Rightarrow> Some k
      | Some r \<Rightarrow>
          if length (k_sig k) < 1 then Some (k\<lparr>k_sig := k_sig k @ [''SIGTERM'']\<rparr>)
          else if k_sig_reader k then
            Some ((signal_goroutine k)\<lparr>k_sig := k_sig (signal_goroutine k) @ [''SIGTERM'']\<rparr>)
          else None)"

section \<open>Options and RunKernel\<close>

text \<open>
  The function given to \<^verbatim>\<open>WithExecution\<close> works on the kernel and returns an error or panics; the
  cancellation of contexts and the arrival of signals while it runs are part of what it does to the
  kernel's state.
\<close>

type_synonym 'w execution = "'w kernel \<Rightarrow> 'w kernel \<times> go_error option call"

datatype 'w kernel_option = WithConfigs KernelConfig | WithExecution "'w execution"

definition apply_option ::
    "'w kernel \<times> 'w execution option \<Rightarrow> 'w kernel_option \<Rightarrow> 'w kernel \<times> 'w execution option" where
  "apply_option ke opt =
     (case ke of (k, ex) \<Rightarrow>
        (case opt of
           WithConfigs config \<Rightarrow>
             (let k1 = k\<lparr>k_config := config\<rparr>
              in (if KernelId (k_config k1) \<noteq> '''' then k1\<lparr>k_id := KernelId (k_config k1)\<rparr> else k1, ex))
         | WithExecution f \<Rightarrow> (k, Some f)))"

definition no_execution :: "'w execution" where
  "no_execution k = (k, Return None)"

definition configure ::
    "string \<Rightarrow> 'w kernel_option list \<Rightarrow> 'w kernel \<Rightarrow> 'w kernel \<times> 'w execution" where
  "configure uuid options k0 =
     (case foldl apply_option (k0, None) options of
        (k, ex) \<Rightarrow>
          let k1 = (if HeapOverflow (k_config k) = 0
                    then k\<lparr>k_config := (k_config k)\<lparr>HeapOverflow := 100\<rparr>\<rparr> else k);
              k2 = (if KernelId (k_config k1) = '''' then k1\<lparr>k_id := uuid\<rparr> else k1)
          in (k2, case ex of None \<Rightarrow> no_execution | Some f \<Rightarrow> f))"

text \<open>
  \<^verbatim>\<open>RunKernel\<close>: \<open>None\<close> when it waits for ever, in \<^verbatim>\<open>Run\<close> or in the deferred send. \<open>late\<close> are the signals
  that arrive while \<^verbatim>\<open>Run\<close> waits. The deferred calls run in reverse order: recover, then \<^verbatim>\<open>Stop\<close>.
\<close>

definition Run :: "string list \<Rightarrow> 'w kernel \<Rightarrow> 'w kernel option" where
  "Run late k =
     (let k1 = foldl (\<lambda>k s. signal_goroutine (os_signal s k)) (signal_goroutine k) late
      in if k_ctx_done k1 then Some k1 else None)"

definition RunKernel ::
    "string \<Rightarrow> int option \<Rightarrow> string list \<Rightarrow> 'w kernel_option list \<Rightarrow> 'w kernel
       \<Rightarrow> ('w kernel \<times> stop_result \<times> string list) option" where
  "RunKernel uuid auto_procs late options k0 =
     (case configure uuid options k0 of
        (k, execution) \<Rightarrow>
          (case execution (Start (setUp auto_procs k)) of
             (k1, Return None) \<Rightarrow> map_option Kernel_Stop (Run late k1)
           | (k1, Return (Some err)) \<Rightarrow>
               map_option Kernel_Stop (RegisterRecovers (Some ''failed to execute kernel logic'') k1)
           | (k1, Panic p) \<Rightarrow> map_option Kernel_Stop (RegisterRecovers (Some p) k1)))"

text \<open>\<^verbatim>\<open>RegisterShutdown\<close> and \<^verbatim>\<open>ID\<close> as methods of the kernel; \<open>None\<close> when the walk along the list does not end.\<close>

definition Kernel_RegisterShutdown ::
    "string \<Rightarrow> 'w body option \<Rightarrow> int \<Rightarrow> 'w kernel \<Rightarrow> 'w kernel option" where
  "Kernel_RegisterShutdown name fn priority k =
     map_option (\<lambda>l. k\<lparr>k_shutdown := l\<rparr>) (RegisterShutdown (k_shutdown k) name fn priority)"

definition ID :: "'w kernel \<Rightarrow> string" where
  "ID k = k_id k"

section \<open>Interleavings\<close>

text \<open>
  One step: an event or the end of a channel arrives from a watchdog, one branch of the \<^verbatim>\<open>select\<close> of a
  listening goroutine, the kernel's context ends, \<^verbatim>\<open>Kernel.Stop\<close> handles one supervisor, or the rest of
  the process changes. A branch that takes the mutex needs it to be free.
\<close>

definition set_sup :: "'w kernel \<Rightarrow> nat \<Rightarrow> 'w LeaderSupervisor \<times> 'w \<Rightarrow> 'w kernel" where
  "set_sup k i sw =
     k\<lparr>k_leaderSupervisors := (k_leaderSupervisors k)[i := fst sw], k_world := snd sw\<rparr>"

definition sup_at :: "'w kernel \<Rightarrow> nat \<Rightarrow> 'w LeaderSupervisor \<Rightarrow> bool" where
  "sup_at k i s \<longleftrightarrow> i < length (k_leaderSupervisors k) \<and> k_leaderSupervisors k ! i = s"

inductive kernel_step :: "'w kernel \<Rightarrow> 'w kernel \<Rightarrow> bool" where
  ks_event: "sup_at k i s \<Longrightarrow> \<not> Watcher_closed s \<Longrightarrow> length (Watcher s) < watcher_cap \<Longrightarrow>
    kernel_step k (set_sup k i (s\<lparr>Watcher := Watcher s @ [ev]\<rparr>, k_world k))"
| ks_close: "sup_at k i s \<Longrightarrow>
    kernel_step k (set_sup k i (s\<lparr>Watcher_closed := True\<rparr>, k_world k))"
| ks_receive: "sup_at k i s \<Longrightarrow> 0 < sup_goroutines s \<Longrightarrow> \<not> sup_locked s \<Longrightarrow> Watcher s = ev # evs \<Longrightarrow>
    kernel_step k (set_sup k i (handle_event ev (s\<lparr>Watcher := evs\<rparr>, k_world k)))"
| ks_chan_closed: "sup_at k i s \<Longrightarrow> 0 < sup_goroutines s \<Longrightarrow> Watcher s = [] \<Longrightarrow> Watcher_closed s \<Longrightarrow>
    kernel_step k (set_sup k i (s\<lparr>sup_goroutines := sup_goroutines s - 1\<rparr>, k_world k))"
| ks_kernel_done: "sup_at k i s \<Longrightarrow> 0 < sup_goroutines s \<Longrightarrow> k_ctx_done k \<Longrightarrow>
    kernel_step k (set_sup k i (s\<lparr>sup_goroutines := sup_goroutines s - 1\<rparr>, k_world k))"
| ks_sup_done: "sup_at k i s \<Longrightarrow> 0 < sup_goroutines s \<Longrightarrow> \<not> sup_locked s \<Longrightarrow>
    k_ctx_done k \<or> sup_cancelled s \<Longrightarrow>
    kernel_step k (set_sup k i (s\<lparr>Working := False, sup_goroutines := sup_goroutines s - 1\<rparr>, k_world k))"
| ks_cancel: "kernel_step k (k\<lparr>k_ctx_done := True\<rparr>)"
| ks_stop: "sup_at k i s \<Longrightarrow> stop_supervisor (s, k_world k) = Some (s', w', r) \<Longrightarrow>
    kernel_step k (set_sup k i (s', w'))"
| ks_world: "kernel_step k (k\<lparr>k_world := w\<rparr>)"

text \<open>A supervisor as the application hands it over, and the kernel right after the goroutines start.\<close>

definition fresh_supervisor :: "'w LeaderSupervisor \<Rightarrow> bool" where
  "fresh_supervisor s \<longleftrightarrow> \<not> sup_locked s \<and> sup_goroutines s = 0 \<and> \<not> Working s \<and> sup_calls s = []"

definition kernel_init :: "'w kernel \<Rightarrow> bool" where
  "kernel_init k \<longleftrightarrow>
     (\<exists>k0. (\<forall>s \<in> set (k_leaderSupervisors k0). fresh_supervisor s) \<and> k = StartWatchdogsLeadership k0)"

definition sup_inv :: "'w LeaderSupervisor \<Rightarrow> bool" where
  "sup_inv s \<longleftrightarrow> alternates CbStart CbStop (sup_calls s) \<and> sup_goroutines s \<le> 1 \<and>
     (\<not> sup_locked s \<and> Working s \<longrightarrow> sup_calls s \<noteq> [] \<and> last (sup_calls s) = CbStart) \<and>
     (\<not> sup_locked s \<and> \<not> Working s \<and> sup_goroutines s = 1 \<longrightarrow>
        sup_calls s = [] \<or> last (sup_calls s) = CbStop)"

definition kernel_inv :: "'w kernel \<Rightarrow> bool" where
  "kernel_inv k \<longleftrightarrow> (\<forall>s \<in> set (k_leaderSupervisors k). sup_inv s)"

text \<open>The configuration that is in force: the last one given, or the empty one.\<close>

definition last_config :: "'w kernel_option list \<Rightarrow> KernelConfig" where
  "last_config options =
     foldl (\<lambda>c opt. case opt of WithConfigs c' \<Rightarrow> c' | WithExecution f \<Rightarrow> c)
       \<lparr>KernelId = '''', Cores = 0, HeapOverflow = 0\<rparr> options"

definition same_duties :: "'w kernel \<Rightarrow> 'w kernel \<Rightarrow> bool" where
  "same_duties k1 k2 \<longleftrightarrow> k_leaderSupervisors k2 = k_leaderSupervisors k1 \<and>
     k_shutdown k2 = k_shutdown k1 \<and> k_world k2 = k_world k1"

definition demo_supervisor :: "nat LeaderSupervisor" where
  "demo_supervisor =
     \<lparr>SupervisorName = ''cron'', Watcher = [TakenAcquire], Watcher_closed = False,
      sup_Start = (\<lambda>w. (w + 1, None)), sup_Stop = (\<lambda>w. (w - 1, None)), sup_cancelled = False,
      sup_locked = False, sup_goroutines = 0, Working = False, sup_calls = []\<rparr>"

definition demo_kernel :: "nat kernel" where
  "demo_kernel = RegisterWatchdogsLeadership (Some demo_supervisor) (newKernel 100 4 0)"

definition demo_leading :: "nat kernel" where
  "demo_leading = set_sup (StartWatchdogsLeadership demo_kernel) 0
     (handle_event TakenAcquire (demo_supervisor\<lparr>sup_goroutines := 1, Watcher := []\<rparr>, 0))"

definition demo_panicking :: "nat kernel" where
  "demo_panicking = StartWatchdogsLeadership (RegisterWatchdogsLeadership
     (Some (demo_supervisor\<lparr>sup_Start := (\<lambda>w. (w, Some ''nil map''))\<rparr>)) (newKernel 100 4 0))"

definition unheard :: "'w LeaderSupervisor \<Rightarrow> bool" where
  "unheard s \<longleftrightarrow> sup_goroutines s = 0 \<and> \<not> Working s \<and> sup_calls s = []"

definition all_unheard :: "'w kernel \<Rightarrow> bool" where
  "all_unheard k \<longleftrightarrow> (\<forall>s \<in> set (k_leaderSupervisors k). unheard s)"

section \<open>Invariant of the supervisors\<close>

lemmas sup_calls_snoc = alternates_snoc [of CbStart CbStop, simplified]

lemma sup_inv_handle_event:
  assumes "sup_inv s" and "\<not> sup_locked s" and "0 < sup_goroutines s"
  shows "sup_inv (fst (handle_event ev (s, w)))"
proof -
  have "sup_goroutines s = 1" using assms by (simp add: sup_inv_def)
  with assms(1,2) show ?thesis
    by (auto simp: sup_inv_def handle_event_def on_lost_def on_taken_def sup_calls_snoc
        split: prod.splits option.splits)
qed

lemma sup_inv_stop_supervisor:
  "sup_inv s \<Longrightarrow> stop_supervisor (s, w) = Some (s', w', r) \<Longrightarrow> sup_inv s'"
  by (auto simp: sup_inv_def stop_supervisor_def sup_calls_snoc Let_def
      split: if_splits prod.splits option.splits)

lemma sup_inv_fields [inv_intros]:
  assumes "sup_inv s"
  shows "sup_inv (s\<lparr>Watcher := q\<rparr>)" and "sup_inv (s\<lparr>Watcher_closed := b\<rparr>)"
    and "sup_inv (s\<lparr>sup_goroutines := sup_goroutines s - Suc 0\<rparr>)"
    and "sup_inv (s\<lparr>Working := False, sup_goroutines := sup_goroutines s - Suc 0\<rparr>)"
  using assms by (auto simp: sup_inv_def)

lemma kernel_inv_set_sup [inv_intros]:
  "kernel_inv k \<Longrightarrow> sup_inv s \<Longrightarrow> kernel_inv (set_sup k i (s, w))"
  by (auto simp: kernel_inv_def set_sup_def dest!: subsetD [OF set_update_subset_insert])

lemma kernel_inv_fields [simp]:
  "kernel_inv (k\<lparr>k_ctx_done := b\<rparr>) = kernel_inv k" "kernel_inv (k\<lparr>k_world := w\<rparr>) = kernel_inv k"
  by (simp_all add: kernel_inv_def)

lemma kernel_inv_at: "kernel_inv k \<Longrightarrow> sup_at k i s \<Longrightarrow> sup_inv s"
  by (auto simp: kernel_inv_def sup_at_def)

lemma kernel_step_inv:
  assumes "kernel_step k k'" and "kernel_inv k"
  shows "kernel_inv k'"
  using assms
proof (cases rule: kernel_step.cases)
  case (ks_receive i s ev evs)
  then have "sup_inv (fst (handle_event ev (s\<lparr>Watcher := evs\<rparr>, k_world k)))"
    using assms(2) by (intro sup_inv_handle_event) (auto dest: kernel_inv_at intro: sup_inv_fields)
  with ks_receive assms(2) show ?thesis by (metis kernel_inv_set_sup prod.collapse)
next
  case ks_stop
  with assms(2) show ?thesis
    by (auto intro!: kernel_inv_set_sup dest: kernel_inv_at sup_inv_stop_supervisor)
qed (auto intro!: inv_intros dest: kernel_inv_at)

interpretation supervision: inductive_invariant kernel_init kernel_step kernel_inv
proof
  fix k :: "'w kernel"
  assume "kernel_init k"
  then show "kernel_inv k"
    by (auto simp: kernel_init_def kernel_inv_def StartWatchdogsLeadership_def GoRecover_def
        fresh_supervisor_def sup_inv_def split: if_splits)
qed (rule kernel_step_inv)

section \<open>Supervisors nobody listens for\<close>

lemma unheard_set_sup: "all_unheard k \<Longrightarrow> unheard s \<Longrightarrow> all_unheard (set_sup k i (s, w))"
  by (auto simp: all_unheard_def set_sup_def dest!: subsetD [OF set_update_subset_insert])

lemma unheard_at: "all_unheard k \<Longrightarrow> sup_at k i s \<Longrightarrow> unheard s"
  by (auto simp: all_unheard_def sup_at_def)

lemma kernel_step_unheard:
  assumes "kernel_step k k'" and "all_unheard k"
  shows "all_unheard k'"
  using assms(1)
proof (cases rule: kernel_step.cases)
  case (ks_stop i s s' w' r)
  have "s' = s\<lparr>sup_cancelled := True\<rparr>"
    using unheard_at [OF assms(2) ks_stop(2)] ks_stop(3)
    by (simp add: stop_supervisor_def unheard_def split: if_splits)
  with ks_stop unheard_at [OF assms(2) ks_stop(2)] unheard_set_sup [OF assms(2)] show ?thesis
    by (simp add: unheard_def)
next
  case (ks_event i s ev)
  with unheard_at [OF assms(2) ks_event(2)] unheard_set_sup [OF assms(2)] show ?thesis by (simp add: unheard_def)
next
  case (ks_close i s)
  with unheard_at [OF assms(2) ks_close(2)] unheard_set_sup [OF assms(2)] show ?thesis by (simp add: unheard_def)
next
  case ks_cancel
  with assms(2) show ?thesis by (simp add: all_unheard_def)
next
  case ks_world
  with assms(2) show ?thesis by (simp add: all_unheard_def)
qed (use unheard_at [OF assms(2)] in \<open>simp add: unheard_def\<close>)+

section \<open>Stop without panics\<close>

lemma stop_supervisors_all:
  assumes "\<forall>s \<in> set ss. \<not> sup_locked s \<and> (\<forall>w. snd (sup_Stop s w) = None)"
  shows "\<exists>w'. stop_supervisors ss w =
    (map (\<lambda>s. s\<lparr>sup_cancelled := True, Working := False,
        sup_calls := sup_calls s @ (if Working s then [CbStop] else [])\<rparr>) ss, w', Stopped)"
  using assms
proof (induction ss arbitrary: w)
  case (Cons s ss)
  obtain w1 where w1: "sup_Stop s w = (w1, None)"
    using Cons.prems by (metis list.set_intros(1) prod.collapse)
  have "stop_supervisor (s, w) = Some (s\<lparr>sup_cancelled := True, Working := False,
      sup_calls := sup_calls s @ (if Working s then [CbStop] else [])\<rparr>, if Working s then w1 else w, None)"
    using Cons.prems w1 by (cases s) (auto simp: stop_supervisor_def Let_def)
  with Cons.IH [of "if Working s then w1 else w"] Cons.prems show ?case by auto
qed simp

lemma stop_supervisors_blocked:
  assumes "sup_locked b" and "\<forall>s \<in> set as. \<not> sup_locked s \<and> (\<forall>w. snd (sup_Stop s w) = None)"
  shows "\<exists>as' w'. stop_supervisors (as @ b # bs) w = (as' @ b # bs, w', Blocked)"
  using assms
proof (induction as arbitrary: w)
  case (Cons a as)
  obtain w1 where w1: "sup_Stop a w = (w1, None)"
    using Cons.prems by (metis list.set_intros(1) prod.collapse)
  obtain a' w2 where "stop_supervisor (a, w) = Some (a', w2, None)"
    using Cons.prems w1 by (cases "Working a") (auto simp: stop_supervisor_def Let_def)
  moreover obtain as' w' where "stop_supervisors (as @ b # bs) w2 = (as' @ b # bs, w', Blocked)"
    using Cons by (metis list.set_intros(2))
  ultimately have "stop_supervisors ((a # as) @ b # bs) w = ((a' # as') @ b # bs, w', Blocked)" by simp
  then show ?case by blast
qed (simp add: stop_supervisor_def exI [of _ "[]"])

text \<open>With no job running, \<^verbatim>\<open>Stop\<close> only cancels the supervisors and runs the hooks.\<close>

lemma Kernel_Stop_idle:
  assumes "\<forall>s \<in> set (k_leaderSupervisors k). \<not> sup_locked s \<and> \<not> Working s"
    and "hooks_rel (k_shutdown k) hs" and "run_hooks hs (k_world k) [] = ([], w', names, None)"
  shows "\<exists>k'. Kernel_Stop k = (k', Stopped, names) \<and> k_world k' = w' \<and>
    k_leaderSupervisors k' = map (\<lambda>s. s\<lparr>sup_cancelled := True\<rparr>) (k_leaderSupervisors k)"
proof -
  have "stop_supervisors ss w = (map (\<lambda>s. s\<lparr>sup_cancelled := True\<rparr>) ss, w, Stopped)"
    if "\<forall>s \<in> set ss. \<not> sup_locked s \<and> \<not> Working s" for ss :: "'a LeaderSupervisor list" and w
    using that by (induction ss) (auto simp: stop_supervisor_def)
  with assms(1) have "stop_supervisors (k_leaderSupervisors k) (k_world k) =
      (map (\<lambda>s. s\<lparr>sup_cancelled := True\<rparr>) (k_leaderSupervisors k), k_world k, Stopped)" by blast
  moreover obtain l' where "shutdownAllAndDeleteAllCanceled (k_shutdown k) (k_world k) = Some (l', w', names, None)"
    using shutdownAll_refines [OF assms(2), of "k_world k"] assms(3) by auto
  ultimately show ?thesis by (simp add: Kernel_Stop_def)
qed

section \<open>Configuration and signals\<close>

lemma apply_options_config:
  "k_config (fst (foldl apply_option (k, ex) options)) =
     foldl (\<lambda>c opt. case opt of WithConfigs c' \<Rightarrow> c' | WithExecution f \<Rightarrow> c) (k_config k) options \<and>
   ((KernelId (k_config k) \<noteq> '''' \<longrightarrow> k_id k = KernelId (k_config k)) \<longrightarrow>
     KernelId (k_config (fst (foldl apply_option (k, ex) options))) \<noteq> '''' \<longrightarrow>
     k_id (fst (foldl apply_option (k, ex) options)) =
       KernelId (k_config (fst (foldl apply_option (k, ex) options))))"
proof (induction options arbitrary: k ex)
  case (Cons opt options)
  obtain k1 ex1 where "apply_option (k, ex) opt = (k1, ex1)" by fastforce
  with Cons.IH [of k1 ex1] show ?case
    by (auto simp: apply_option_def Let_def split: kernel_option.splits if_splits)
qed simp

lemma signal_goroutine_done: "k_ctx_done k \<Longrightarrow> k_ctx_done (signal_goroutine k)"
  by (simp add: signal_goroutine_def)

lemma signals_same:
  "same_duties k (foldl (\<lambda>k s. signal_goroutine (os_signal s k)) k late) \<and>
   (k_ctx_done (foldl (\<lambda>k s. signal_goroutine (os_signal s k)) k late) \<longleftrightarrow>
      k_ctx_done k \<or> k_sig_reader k \<and> late \<noteq> [])"
proof (induction late arbitrary: k)
  case (Cons s late)
  let ?k = "signal_goroutine (os_signal s k)"
  have "same_duties k ?k" "k_ctx_done ?k \<longleftrightarrow> k_ctx_done k \<or> k_sig_reader k" "\<not> k_sig_reader ?k"
    by (auto simp: same_duties_def signal_goroutine_def os_signal_def)
  with Cons.IH [of ?k] show ?case by (auto simp: same_duties_def)
qed (simp add: same_duties_def)

lemma Run_spec:
  "if k_ctx_done k \<or> k_sig_reader k \<and> (k_sig k \<noteq> [] \<or> late \<noteq> [])
   then \<exists>k'. Run late k = Some k' \<and> k_ctx_done k' \<and> same_duties k k'
   else Run late k = None"
proof -
  have "same_duties k (signal_goroutine k)"
    "k_ctx_done (signal_goroutine k) \<longleftrightarrow> k_ctx_done k \<or> k_sig_reader k \<and> k_sig k \<noteq> []"
    "k_sig k = [] \<Longrightarrow> signal_goroutine k = k"
    by (auto simp: same_duties_def signal_goroutine_def)
  with signals_same [of "signal_goroutine k" late] show ?thesis
    by (auto simp: Run_def Let_def same_duties_def signal_goroutine_def)
qed

lemma RegisterRecovers_spec:
  "if k_sig k = [] \<or> k_sig_reader k
   then \<exists>k'. RegisterRecovers (Some p) k = Some k' \<and> same_duties k k'
   else RegisterRecovers (Some p) k = None"
  by (auto simp: RegisterRecovers_def same_duties_def signal_goroutine_def)

section \<open>Properties\<close>

text \<open>
  C2. For every interleaving of watchdog events, listening goroutines, cancellations and \<^verbatim>\<open>Kernel.Stop\<close>,
  and whatever the callbacks do (panics included), the calls of a supervisor's \<^verbatim>\<open>Start\<close> and \<^verbatim>\<open>Stop\<close>
  alternate, starting with \<^verbatim>\<open>Start\<close>: a job is never started twice nor stopped while it is not running.
\<close>

theorem supervisor_calls_alternate:
  assumes "reachable kernel_init kernel_step k" and "s \<in> set (k_leaderSupervisors k)"
  shows "alternates CbStart CbStop (sup_calls s)"
  using supervision.invariant [OF assms(1)] assms(2) by (simp add: kernel_inv_def sup_inv_def)

lemmas demo_defs = demo_supervisor_def demo_kernel_def demo_leading_def newKernel_def GoRecover_def
  RegisterWatchdogsLeadership_def StartWatchdogsLeadership_def set_sup_def handle_event_def on_taken_def

lemma demo_leading_reachable: "reachable kernel_init kernel_step demo_leading"
proof -
  have "reachable kernel_init kernel_step (StartWatchdogsLeadership demo_kernel)"
    by (intro reach_init) (auto simp: kernel_init_def demo_defs fresh_supervisor_def
        intro!: exI [of _ demo_kernel])
  moreover have "kernel_step (StartWatchdogsLeadership demo_kernel) demo_leading"
    using ks_receive [of "StartWatchdogsLeadership demo_kernel" 0
        "demo_supervisor\<lparr>sup_goroutines := 1\<rparr>" TakenAcquire "[]"]
    by (simp add: sup_at_def demo_defs)
  ultimately show ?thesis by (rule reach_step)
qed

theorem supervisor_calls_alternate_witness:
  "\<exists>s \<in> set (k_leaderSupervisors demo_leading).
     sup_calls s = [CbStart] \<and> alternates CbStart CbStop (sup_calls s)"
proof -
  let ?s = "hd (k_leaderSupervisors demo_leading)"
  have "?s \<in> set (k_leaderSupervisors demo_leading)" "sup_calls ?s = [CbStart]"
    by (simp_all add: demo_defs)
  with supervisor_calls_alternate [OF demo_leading_reachable this(1)] show ?thesis by blast
qed



text \<open>
  A running job may be left running: once the kernel's context is done, the listening goroutine may
  take the branch of its supervisor's context, which is cancelled with it, and that branch clears
  \<^verbatim>\<open>Working\<close> without calling \<^verbatim>\<open>Stop\<close>. \<^verbatim>\<open>Kernel.Stop\<close> then does not call it either.
\<close>

theorem cancelled_kernel_skips_Stop:
  assumes "sup_at k i s" and "0 < sup_goroutines s" and "\<not> sup_locked s" and "Working s"
    and "k_ctx_done k"
  shows "\<exists>k' s'. kernel_step k k' \<and> sup_at k' i s' \<and> \<not> Working s' \<and> sup_calls s' = sup_calls s \<and>
    stop_supervisor (s', k_world k') = Some (s'\<lparr>sup_cancelled := True\<rparr>, k_world k', None)"
proof -
  let ?s = "s\<lparr>Working := False, sup_goroutines := sup_goroutines s - 1\<rparr>"
  let ?k = "set_sup k i (?s, k_world k)"
  have "kernel_step k ?k" using assms by (intro ks_sup_done) auto
  moreover have "sup_at ?k i ?s" using assms(1) by (auto simp: sup_at_def set_sup_def)
  moreover have "stop_supervisor (?s, k_world ?k) = Some (?s\<lparr>sup_cancelled := True\<rparr>, k_world ?k, None)"
    using assms(3) by (simp add: stop_supervisor_def)
  ultimately show ?thesis by (intro exI [of _ ?k] exI [of _ ?s]) simp
qed

theorem cancelled_kernel_skips_Stop_witness:
  "\<exists>k' s'. kernel_step (demo_leading\<lparr>k_ctx_done := True\<rparr>) k' \<and> sup_at k' 0 s' \<and> \<not> Working s' \<and>
     sup_calls s' = [CbStart]"
proof -
  let ?s = "hd (k_leaderSupervisors demo_leading)"
  have "sup_at (demo_leading\<lparr>k_ctx_done := True\<rparr>) 0 ?s" "0 < sup_goroutines ?s" "\<not> sup_locked ?s"
    "Working ?s" "k_ctx_done (demo_leading\<lparr>k_ctx_done := True\<rparr>)" "sup_calls ?s = [CbStart]"
    by (simp_all add: sup_at_def demo_defs)
  with cancelled_kernel_skips_Stop [OF this(1-5)] show ?thesis by metis
qed

text \<open>
  C37. A panic in a \<^verbatim>\<open>Start\<close> callback keeps the process from stopping: the supervisor's mutex stays locked,
  and \<^verbatim>\<open>Kernel.Stop\<close> waits for it before any shutdown hook has run.
\<close>

theorem panicking_Start_blocks_Stop:
  assumes "sup_at k i s" and "Watcher s = TakenAcquire # evs" and "0 < sup_goroutines s"
    and "\<not> sup_locked s" and "\<not> Working s" and "sup_Start s (k_world k) = (w', Some r)"
    and "\<forall>s \<in> set (take i (k_leaderSupervisors k)). \<not> sup_locked s \<and> (\<forall>w. snd (sup_Stop s w) = None)"
  shows "\<exists>k' k''. kernel_step k k' \<and> Kernel_Stop k' = (k'', Blocked, [])"
proof -
  let ?k = "set_sup k i (handle_event TakenAcquire (s\<lparr>Watcher := evs\<rparr>, k_world k))"
  let ?ss = "take i (k_leaderSupervisors k)"
  let ?s = "fst (handle_event TakenAcquire (s\<lparr>Watcher := evs\<rparr>, k_world k))"
  have step: "kernel_step k ?k" using assms(1,3,4,2) by (rule ks_receive)
  have "sup_locked ?s" using assms(5,6) by (simp add: handle_event_def on_taken_def)
  from stop_supervisors_blocked [OF this assms(7), of "drop (Suc i) (k_leaderSupervisors k)" "k_world ?k"]
  obtain ss w where "stop_supervisors (k_leaderSupervisors ?k) (k_world ?k) = (ss, w, Blocked)"
    using assms(1) by (auto simp: sup_at_def set_sup_def upd_conv_take_nth_drop)
  then have "\<exists>k''. Kernel_Stop ?k = (k'', Blocked, [])" by (simp add: Kernel_Stop_def Let_def)
  with step show ?thesis by blast
qed

theorem panicking_Start_blocks_Stop_witness:
  "\<exists>k' k''. kernel_step demo_panicking k' \<and> Kernel_Stop k' = (k'', Blocked, [])"
proof -
  let ?s = "hd (k_leaderSupervisors demo_panicking)"
  have "sup_at demo_panicking 0 ?s" "Watcher ?s = TakenAcquire # []" "0 < sup_goroutines ?s"
    "\<not> sup_locked ?s" "\<not> Working ?s" "sup_Start ?s (k_world demo_panicking) = (0, Some ''nil map'')"
    by (simp_all add: sup_at_def demo_panicking_def demo_defs)
  from panicking_Start_blocks_Stop [OF this] show ?thesis by simp
qed

text \<open>
  \<^verbatim>\<open>RunKernel\<close> applies its options, with the last configuration winning, a missing heap percentage
  being 100 and a missing identifier a fresh UUID.
\<close>

theorem configure_defaults:
  "k_id (fst (configure uuid options (newKernel gc procs w))) =
     (if KernelId (last_config options) = '''' then uuid else KernelId (last_config options)) \<and>
   k_config (fst (configure uuid options (newKernel gc procs w))) =
     (last_config options)\<lparr>HeapOverflow :=
        (if HeapOverflow (last_config options) = 0 then 100 else HeapOverflow (last_config options))\<rparr>"
  using apply_options_config [of "newKernel gc procs w" None options]
  by (auto simp: configure_def Let_def last_config_def newKernel_def split: prod.splits)



end
