(* ===== verification/Scheduler.thy ===== *)
theory Scheduler
  imports Utils
begin

text \<open>
  The package \<^verbatim>\<open>scheduler\<close>: \<^verbatim>\<open>JobScheduler\<close> (\<^verbatim>\<open>scheduler.go\<close>), \<^verbatim>\<open>TaskSupervisor\<close> (\<^verbatim>\<open>supervisor.go\<close>) and
  the wrapper \<^verbatim>\<open>Cron\<close> (\<^verbatim>\<open>cron.go\<close>).

  The state holds the jobs by name, the number of tokens in the channel \<^verbatim>\<open>rate\<close> and one thread for
  every goroutine started by \<^verbatim>\<open>Start\<close>, with the place in \<^verbatim>\<open>run\<close> and \<^verbatim>\<open>exec\<close> it has reached;
  \<open>js_starting\<close> holds the calls of \<^verbatim>\<open>Start\<close> in progress with the jobs they have still to start. The
  methods are functions; a goroutine moves by the steps of \<open>sched_step\<close>. The order of the job list stands for
  the iteration order of the Go map, which is arbitrary.

  A ticker is known by a number: \<open>js_ticking\<close> holds the tickers that run, \<open>js_ticks\<close> those whose channel
  holds a tick. Stopping a ticker empties its channel (Go 1.23 and later; the module requires 1.24).
\<close>

section \<open>Data\<close>

datatype StopMode = StopImmediate | StopGraceful | OtherMode int

record JobConfiguration =
  Name :: string
  Func :: "ctx \<Rightarrow> go_error option call"
  Tick :: duration
  Deadline :: duration
  cfg_StopMode :: StopMode

text \<open>
  \<open>j_ctx\<close> is the pair of the number of the cancel function and the parent context; it is \<open>None\<close> while
  \<^verbatim>\<open>ctx\<close> and \<^verbatim>\<open>cancel\<close> are nil. \<open>j_ticker\<close> is the number of the ticker, \<open>None\<close> for nil. \<open>j_rmu\<close> is true
  when a panic left the mutex locked.
\<close>

record job =
  j_name :: string
  j_rmu :: bool
  j_ctx :: "(nat \<times> ctx) option"
  j_fn :: "ctx \<Rightarrow> go_error option call"
  j_tick :: duration
  j_ticker :: "nat option"
  j_deadline :: duration
  j_wg :: nat
  j_stopMode :: StopMode

text \<open>
  The places of a goroutine: before the check of \<^verbatim>\<open>GoRecover\<close>, at the head of the loop of \<^verbatim>\<open>run\<close>, in its
  \<^verbatim>\<open>select\<close> with the context and the ticker read at the head, in the \<^verbatim>\<open>select\<close> of \<^verbatim>\<open>exec\<close>, past it with a
  token, in the job function, returned, never entered.
\<close>

datatype place =
    Spawned ctx
  | Looping
  | Selecting "nat \<times> ctx" nat
  | Acquiring
  | Holding
  | Executing ctx
  | Ended
  | Skipped

record JobScheduler =
  js_mu :: bool
  js_started :: bool
  js_goroutines :: "(string \<times> job) list"
  js_rate :: nat
  js_rate_cap :: nat
  js_threads :: "(string \<times> place) list"
  js_starting :: "(ctx \<times> string list) list"
  js_ticking :: "nat set"
  js_ticks :: "nat set"
  js_fresh :: nat
  js_env :: ctx_env

definition NewJobScheduler :: "ctx_env \<Rightarrow> nat \<Rightarrow> int \<Rightarrow> JobScheduler" where
  "NewJobScheduler env fresh rate =
     (let rate = (if rate \<le> 0 then 1 else rate)
      in \<lparr>js_mu = False, js_started = False, js_goroutines = [], js_rate = 0, js_rate_cap = nat rate,
          js_threads = [], js_starting = [], js_ticking = {}, js_ticks = {}, js_fresh = fresh, js_env = env\<rparr>)"

text \<open>How a call ends: it returns, waits for ever on a mutex, or panics.\<close>

datatype api_end = Returns | Blocks | Panics string

section \<open>Methods\<close>

definition Add :: "JobConfiguration \<Rightarrow> JobScheduler \<Rightarrow> JobScheduler \<times> api_end \<times> go_error option" where
  "Add cfg s =
     (if js_mu s then (s, Blocks, None)
      else if js_started s then
        (s, Returns, Some (ErrorString (''scheduler.Add('' @ Name cfg @ ''): already started'')))
      else if map_of (js_goroutines s) (Name cfg) \<noteq> None then
        (s, Returns, Some (ErrorString (''scheduler.Add('' @ Name cfg @ ''): job already exists'')))
      else
        (s\<lparr>js_goroutines := js_goroutines s @
             [(Name cfg, \<lparr>j_name = Name cfg, j_rmu = False, j_ctx = None, j_fn = Func cfg,
                j_tick = Tick cfg, j_ticker = None, j_deadline = Deadline cfg, j_wg = 0,
                j_stopMode = cfg_StopMode cfg\<rparr>)]\<rparr>, Returns, None))"

definition set_job :: "string \<Rightarrow> (job \<Rightarrow> job) \<Rightarrow> JobScheduler \<Rightarrow> JobScheduler" where
  "set_job n f s =
     s\<lparr>js_goroutines := map (\<lambda>(m, j). (m, if m = n then f j else j)) (js_goroutines s)\<rparr>"

text \<open>
  \<^verbatim>\<open>Start\<close> takes the mutex only to set \<^verbatim>\<open>started\<close> and to copy the jobs; the loop over the copy runs
  without it. \<open>start_job\<close> is one iteration of that loop; \<^verbatim>\<open>time.NewTicker\<close> panics for a non-positive
  duration.
\<close>

definition start_begin :: "JobScheduler \<Rightarrow> JobScheduler \<times> api_end \<times> string list" where
  "start_begin s =
     (if js_mu s then (s, Blocks, [])
      else if js_started s then (s, Returns, [])
      else (s\<lparr>js_started := True\<rparr>, Returns, map fst (js_goroutines s)))"

definition start_job :: "ctx \<Rightarrow> string \<Rightarrow> JobScheduler \<Rightarrow> JobScheduler \<times> api_end" where
  "start_job ctx n s =
     (case map_of (js_goroutines s) n of
        None \<Rightarrow> (s, Returns)
      | Some j \<Rightarrow>
          if j_rmu j then (s, Blocks)
          else if j_tick j \<le> 0 then
            (set_job n (\<lambda>j. j\<lparr>j_ctx := Some (js_fresh s, ctx), j_rmu := True\<rparr>)
               (s\<lparr>js_fresh := js_fresh s + 1\<rparr>), Panics ''non-positive interval for NewTicker'')
          else
            (set_job n (\<lambda>j. j\<lparr>j_ctx := Some (js_fresh s, ctx), j_ticker := Some (js_fresh s), j_wg := j_wg j + 1\<rparr>)
               (s\<lparr>js_fresh := js_fresh s + 1, js_ticking := insert (js_fresh s) (js_ticking s),
                  js_threads := js_threads s @ [(n, Spawned ctx)]\<rparr>), Returns))"

fun start_jobs :: "ctx \<Rightarrow> string list \<Rightarrow> JobScheduler \<Rightarrow> JobScheduler \<times> api_end" where
  "start_jobs ctx [] s = (s, Returns)"
| "start_jobs ctx (n # ns) s =
     (case start_job ctx n s of
        (s1, Returns) \<Rightarrow> start_jobs ctx ns s1
      | (s1, r) \<Rightarrow> (s1, r))"

definition Start :: "ctx \<Rightarrow> JobScheduler \<Rightarrow> JobScheduler \<times> api_end" where
  "Start ctx s =
     (case start_begin s of
        (s1, Returns, ns) \<Rightarrow> start_jobs ctx ns s1
      | (s1, r, _) \<Rightarrow> (s1, r))"

text \<open>
  \<^verbatim>\<open>Stop\<close> up to the wait: a nil \<^verbatim>\<open>cancel\<close> panics and a locked job mutex blocks, both with the scheduler's
  mutex held. The wait ends when every wait group is zero.
\<close>

definition stop_ticker :: "nat option \<Rightarrow> JobScheduler \<Rightarrow> JobScheduler" where
  "stop_ticker ticker s =
     (case ticker of None \<Rightarrow> s
      | Some t \<Rightarrow> s\<lparr>js_ticking := js_ticking s - {t}, js_ticks := js_ticks s - {t}\<rparr>)"

definition cancel_job :: "string \<times> job \<Rightarrow> JobScheduler \<Rightarrow> JobScheduler \<times> api_end" where
  "cancel_job nj s =
     (case nj of (n, j) \<Rightarrow>
        (case j_ctx j of
           None \<Rightarrow> (s\<lparr>js_mu := True\<rparr>, Panics ''invalid memory address or nil pointer dereference'')
         | Some (i, p) \<Rightarrow>
             let s1 = s\<lparr>js_env := (js_env s)\<lparr>env_cancelled := insert i (env_cancelled (js_env s))\<rparr>\<rparr>
             in if j_rmu j then (s1\<lparr>js_mu := True\<rparr>, Blocks)
                else (stop_ticker (j_ticker j) s1, Returns)))"

fun cancel_jobs :: "(string \<times> job) list \<Rightarrow> JobScheduler \<Rightarrow> JobScheduler \<times> api_end" where
  "cancel_jobs [] s = (s, Returns)"
| "cancel_jobs (nj # jobs) s =
     (case cancel_job nj s of
        (s1, Returns) \<Rightarrow> cancel_jobs jobs s1
      | (s1, r) \<Rightarrow> (s1, r))"

definition Stop_signal :: "JobScheduler \<Rightarrow> JobScheduler \<times> api_end" where
  "Stop_signal s =
     (if js_mu s then (s, Blocks)
      else if \<not> js_started s then (s, Returns)
      else cancel_jobs (js_goroutines s) (s\<lparr>js_started := False\<rparr>))"

definition Stop_waited :: "JobScheduler \<Rightarrow> bool" where
  "Stop_waited s \<longleftrightarrow> (\<forall>(n, j) \<in> set (js_goroutines s). j_wg j = 0)"

section \<open>run and exec\<close>

definition job_ctx :: "job \<Rightarrow> ctx" where
  "job_ctx j = (case j_ctx j of None \<Rightarrow> Background | Some (i, p) \<Rightarrow> WithCancel i p)"

definition job_done :: "JobScheduler \<Rightarrow> string \<Rightarrow> bool" where
  "job_done s n =
     (case map_of (js_goroutines s) n of None \<Rightarrow> False | Some j \<Rightarrow> ctx_done (js_env s) (job_ctx j))"

text \<open>The context \<^verbatim>\<open>exec\<close> gives to the job function; an unknown stop mode calls nothing.\<close>

definition exec_ctx :: "nat \<Rightarrow> instant \<Rightarrow> job \<Rightarrow> ctx option" where
  "exec_ctx i t j =
     (case j_stopMode j of
        StopImmediate \<Rightarrow> Some (WithTimeout i (t + j_deadline j) (job_ctx j))
      | StopGraceful \<Rightarrow> Some (WithTimeout i (t + j_deadline j) Background)
      | OtherMode _ \<Rightarrow> None)"

text \<open>The error \<^verbatim>\<open>exec\<close> returns once it holds a token: a panic of the function becomes an error.\<close>

definition exec_err :: "nat \<Rightarrow> instant \<Rightarrow> job \<Rightarrow> go_error option" where
  "exec_err i t j =
     (case exec_ctx i t j of None \<Rightarrow> None
      | Some c \<Rightarrow>
          (case j_fn j c of Return e \<Rightarrow> e | Panic r \<Rightarrow> Some (ErrorString (''panic in job: '' @ r))))"

definition set_thread :: "nat \<Rightarrow> place \<Rightarrow> JobScheduler \<Rightarrow> JobScheduler" where
  "set_thread k p s = s\<lparr>js_threads := (js_threads s)[k := (fst (js_threads s ! k), p)]\<rparr>"

definition thread_at :: "JobScheduler \<Rightarrow> nat \<Rightarrow> string \<Rightarrow> place \<Rightarrow> bool" where
  "thread_at s k n p \<longleftrightarrow> k < length (js_threads s) \<and> js_threads s ! k = (n, p)"

text \<open>
  The steps of one goroutine: \<^verbatim>\<open>GoRecover\<close> looks at the context before the body; \<^verbatim>\<open>run\<close> reads the job's
  context and ticker under its read lock and selects on what it read; the \<^verbatim>\<open>select\<close> of \<^verbatim>\<open>exec\<close>, the check
  after it, the call of the job function and the release of the token, in whichever way the function ends.
\<close>

inductive thread_step :: "JobScheduler \<Rightarrow> JobScheduler \<Rightarrow> bool" where
  th_skip: "thread_at s k n (Spawned c) \<Longrightarrow> ctx_done (js_env s) c \<Longrightarrow>
    thread_step s (set_thread k Skipped s)"
| th_enter: "thread_at s k n (Spawned c) \<Longrightarrow> \<not> ctx_done (js_env s) c \<Longrightarrow>
    thread_step s (set_thread k Looping s)"
| th_read: "thread_at s k n Looping \<Longrightarrow> map_of (js_goroutines s) n = Some j \<Longrightarrow> \<not> j_rmu j \<Longrightarrow>
    j_ctx j = Some c \<Longrightarrow> j_ticker j = Some t \<Longrightarrow>
    thread_step s (set_thread k (Selecting c t) s)"
| th_return: "thread_at s k n (Selecting (i, p) t) \<Longrightarrow> ctx_done (js_env s) (WithCancel i p) \<Longrightarrow>
    thread_step s (set_job n (\<lambda>j. j\<lparr>j_wg := j_wg j - 1\<rparr>) (set_thread k Ended s))"
| th_tick: "thread_at s k n (Selecting c t) \<Longrightarrow> t \<in> js_ticks s \<Longrightarrow>
    thread_step s ((set_thread k Acquiring s)\<lparr>js_ticks := js_ticks s - {t}\<rparr>)"
| th_give_up: "thread_at s k n Acquiring \<Longrightarrow> job_done s n \<Longrightarrow>
    thread_step s (set_thread k Looping s)"
| th_acquire: "thread_at s k n Acquiring \<Longrightarrow> js_rate s < js_rate_cap s \<Longrightarrow>
    thread_step s ((set_thread k Holding s)\<lparr>js_rate := js_rate s + 1\<rparr>)"
| th_recheck: "thread_at s k n Holding \<Longrightarrow> job_done s n \<Longrightarrow>
    thread_step s ((set_thread k Looping s)\<lparr>js_rate := js_rate s - 1\<rparr>)"
| th_call: "thread_at s k n Holding \<Longrightarrow> \<not> job_done s n \<Longrightarrow> map_of (js_goroutines s) n = Some j \<Longrightarrow>
    exec_ctx (js_fresh s) (env_now (js_env s)) j = Some c \<Longrightarrow>
    thread_step s ((set_thread k (Executing c) s)\<lparr>js_fresh := js_fresh s + 1\<rparr>)"
| th_no_call: "thread_at s k n Holding \<Longrightarrow> \<not> job_done s n \<Longrightarrow> map_of (js_goroutines s) n = Some j \<Longrightarrow>
    exec_ctx (js_fresh s) (env_now (js_env s)) j = None \<Longrightarrow>
    thread_step s ((set_thread k Looping s)\<lparr>js_rate := js_rate s - 1\<rparr>)"
| th_finish: "thread_at s k n (Executing c) \<Longrightarrow>
    thread_step s ((set_thread k Looping s)\<lparr>js_rate := js_rate s - 1\<rparr>)"

text \<open>What goes on between calls: a goroutine moves, a ticker fires, time passes or a context is cancelled.\<close>

inductive work_step :: "JobScheduler \<Rightarrow> JobScheduler \<Rightarrow> bool" where
  ws_thread: "thread_step s s' \<Longrightarrow> work_step s s'"
| ws_timer: "t \<in> js_ticking s \<Longrightarrow> work_step s (s\<lparr>js_ticks := insert t (js_ticks s)\<rparr>)"
| ws_env: "env_cancelled (js_env s) \<subseteq> env_cancelled e \<Longrightarrow> env_now (js_env s) \<le> env_now e \<Longrightarrow>
    work_step s (s\<lparr>js_env := e\<rparr>)"

text \<open>A step of the whole: work goes on or a method is called; the loop of \<^verbatim>\<open>Start\<close> is cut at its iterations.\<close>

inductive sched_step :: "JobScheduler \<Rightarrow> JobScheduler \<Rightarrow> bool" where
  ss_work: "work_step s s' \<Longrightarrow> sched_step s s'"
| ss_add: "sched_step s (fst (Add cfg s))"
| ss_start: "start_begin s = (s1, Returns, ns) \<Longrightarrow>
    sched_step s (s1\<lparr>js_starting := js_starting s1 @ [(ctx, ns)]\<rparr>)"
| ss_start_job: "k < length (js_starting s) \<Longrightarrow> js_starting s ! k = (ctx, n # ns) \<Longrightarrow>
    start_job ctx n s = (s1, r) \<Longrightarrow> r \<noteq> Blocks \<Longrightarrow>
    sched_step s (s1\<lparr>js_starting := (js_starting s)[k := (ctx, if r = Returns then ns else [])]\<rparr>)"
| ss_stop: "sched_step s (fst (Stop_signal s))"

definition sched_init :: "JobScheduler \<Rightarrow> bool" where
  "sched_init s \<longleftrightarrow> (\<exists>env fresh rate. s = NewJobScheduler env fresh rate)"

section \<open>TaskSupervisor\<close>

text \<open>
  A whole call of \<^verbatim>\<open>Stop()()\<close>: after the signal it waits while the goroutines go on. It returns at once
  when the scheduler is not started.
\<close>

definition Stop_call :: "JobScheduler \<Rightarrow> JobScheduler \<Rightarrow> bool" where
  "Stop_call s s' \<longleftrightarrow>
     (\<exists>s1. Stop_signal s = (s1, Returns) \<and>
        (if js_started s then work_step\<^sup>*\<^sup>* s1 s' \<and> Stop_waited s' else s' = s1))"

text \<open>\<^verbatim>\<open>TaskSupervisor\<close> calls the methods of the interface \<^verbatim>\<open>JobSchedulerInterface\<close>, first to last.\<close>

fun TaskSupervisor_Start ::
    "('c \<Rightarrow> 's \<Rightarrow> 's \<times> api_end) \<Rightarrow> 'c \<Rightarrow> 's list \<Rightarrow> 's list \<times> api_end" where
  "TaskSupervisor_Start start ctx [] = ([], Returns)"
| "TaskSupervisor_Start start ctx (s # ss) =
     (case start ctx s of
        (s', Returns) \<Rightarrow>
          (case TaskSupervisor_Start start ctx ss of (ss', r) \<Rightarrow> (s' # ss', r))
      | (s', r) \<Rightarrow> (s' # ss, r))"

fun TaskSupervisor_Stop :: "('s \<Rightarrow> 's \<Rightarrow> bool) \<Rightarrow> 's list \<Rightarrow> 's list \<Rightarrow> bool" where
  "TaskSupervisor_Stop stop [] ss' \<longleftrightarrow> ss' = []"
| "TaskSupervisor_Stop stop (s # ss) ss' \<longleftrightarrow>
     (case ss' of [] \<Rightarrow> False | t # ts \<Rightarrow> stop s t \<and> TaskSupervisor_Stop stop ss ts)"

section \<open>Cron\<close>

text \<open>
  \<^verbatim>\<open>robfig/cron\<close> is a parameter: \<open>parses\<close> tells whether \<^verbatim>\<open>AddFunc\<close> accepts the calendar; the entries are
  the calendars with the functions filed under them.
\<close>

record 'f Cron =
  c_entries :: "(string \<times> 'f) list"
  c_running :: bool

definition NewCron :: "'f Cron" where
  "NewCron = \<lparr>c_entries = [], c_running = False\<rparr>"

definition Cron_Add :: "(string \<Rightarrow> bool) \<Rightarrow> string \<Rightarrow> 'f \<Rightarrow> 'f Cron \<Rightarrow> 'f Cron call" where
  "Cron_Add parses calendar fn c =
     (if parses calendar then Return (c\<lparr>c_entries := c_entries c @ [(calendar, fn)]\<rparr>)
      else Panic (''failed to add cron job '' @ calendar))"

definition Cron_Stop :: "'f Cron \<Rightarrow> 'f Cron" where
  "Cron_Stop c = c\<lparr>c_running := False\<rparr>"

definition Cron_Start :: "'f Cron \<Rightarrow> 'f Cron" where
  "Cron_Start c = c\<lparr>c_running := True\<rparr>"

section \<open>Invariant\<close>

definition holds_token :: "place \<Rightarrow> bool" where
  "holds_token p \<longleftrightarrow> (case p of Holding \<Rightarrow> True | Executing _ \<Rightarrow> True | _ \<Rightarrow> False)"

definition thread_count :: "(string \<times> place \<Rightarrow> bool) \<Rightarrow> JobScheduler \<Rightarrow> nat" where
  "thread_count P s = length (filter P (js_threads s))"

definition waited_for :: "string \<Rightarrow> string \<times> place \<Rightarrow> bool" where
  "waited_for n th \<longleftrightarrow> fst th = n \<and> snd th \<noteq> Ended"

definition sched_inv :: "JobScheduler \<Rightarrow> bool" where
  "sched_inv s \<longleftrightarrow>
     distinct (map fst (js_goroutines s)) \<and> 0 < js_rate_cap s \<and>
     js_rate s = thread_count (holds_token \<circ> snd) s \<and> js_rate s \<le> js_rate_cap s \<and>
     fst ` set (js_threads s) \<subseteq> fst ` set (js_goroutines s) \<and>
     (\<forall>n j. (n, j) \<in> set (js_goroutines s) \<longrightarrow> j_wg j = thread_count (waited_for n) s)"

definition all_ended :: "JobScheduler \<Rightarrow> bool" where
  "all_ended s \<longleftrightarrow> (\<forall>th \<in> set (js_threads s). snd th = Ended)"

text \<open>The invariant between the calls of a single client: a stopped scheduler has no goroutine left.\<close>

definition sched_seq_inv :: "JobScheduler \<Rightarrow> bool" where
  "sched_seq_inv s \<longleftrightarrow> sched_inv s \<and> (js_started s \<or> all_ended s)"

text \<open>A job that ticks every second.\<close>

definition demo_cfg :: JobConfiguration where
  "demo_cfg = \<lparr>Name = ''beat'', Func = (\<lambda>_. Return None), Tick = Second, Deadline = Second,
     cfg_StopMode = StopImmediate\<rparr>"

definition demo_env :: "bool \<Rightarrow> ctx_env" where
  "demo_env cancelled = \<lparr>env_cancelled = (if cancelled then {0} else {}), env_now = 0\<rparr>"

definition demo_sched :: "bool \<Rightarrow> JobScheduler" where
  "demo_sched cancelled = fst (Add demo_cfg (NewJobScheduler (demo_env cancelled) 1 0))"

section \<open>The interface JobSchedulerInterface\<close>

locale job_scheduler =
  fixes start :: "'c \<Rightarrow> 's \<Rightarrow> 's \<times> api_end"
    and stop :: "'s \<Rightarrow> 's \<Rightarrow> bool"
    and started :: "'s \<Rightarrow> bool"
    and idle :: "'s \<Rightarrow> bool"
    and invar :: "'s \<Rightarrow> bool"
  assumes start_started: "invar s \<Longrightarrow> start c s = (s', Returns) \<Longrightarrow> invar s' \<and> started s'"
    and stop_idle: "invar s \<Longrightarrow> stop s s' \<Longrightarrow> invar s' \<and> \<not> started s' \<and> idle s'"
begin

lemma start_all:
  assumes "\<forall>s \<in> set ss. invar s" and "TaskSupervisor_Start start c ss = (ss', Returns)"
  shows "length ss' = length ss \<and> (\<forall>s \<in> set ss'. invar s \<and> started s)"
  using assms
  by (induction ss arbitrary: ss') (auto dest: start_started split: prod.splits api_end.splits)

lemma stop_all:
  assumes "\<forall>s \<in> set ss. invar s" and "TaskSupervisor_Stop stop ss ss'"
  shows "length ss' = length ss \<and> (\<forall>s \<in> set ss'. invar s \<and> \<not> started s \<and> idle s)"
  using assms
  by (induction ss arbitrary: ss') (auto dest: stop_idle split: list.splits)

end

section \<open>Preservation\<close>

lemma count_update:
  assumes "k < length xs"
  shows "length (filter P (xs[k := y])) + of_bool (P (xs ! k)) = length (filter P xs) + of_bool (P y)"
proof -
  have "length (filter P xs) =
      length (filter P (take k xs)) + of_bool (P (xs ! k)) + length (filter P (drop (Suc k) xs))"
    using arg_cong [OF id_take_nth_drop [OF assms], of "\<lambda>xs. length (filter P xs)"] by simp
  then show ?thesis using assms by (simp add: upd_conv_take_nth_drop)
qed

lemma set_job_fields [simp]:
  "js_mu (set_job n f s) = js_mu s" "js_started (set_job n f s) = js_started s"
  "js_rate (set_job n f s) = js_rate s" "js_rate_cap (set_job n f s) = js_rate_cap s"
  "js_threads (set_job n f s) = js_threads s" "js_fresh (set_job n f s) = js_fresh s"
  "js_env (set_job n f s) = js_env s" "js_starting (set_job n f s) = js_starting s"
  "js_ticking (set_job n f s) = js_ticking s" "js_ticks (set_job n f s) = js_ticks s"
  by (simp_all add: set_job_def)

lemma set_job_names [simp]: "map fst (js_goroutines (set_job n f s)) = map fst (js_goroutines s)"
  by (auto simp: set_job_def)

lemma set_job_keys [simp]: "fst ` set (js_goroutines (set_job n f s)) = fst ` set (js_goroutines s)"
  by (metis list.set_map set_job_names)

lemma set_job_wg:
  "(m, j) \<in> set (js_goroutines (set_job n f s)) \<longleftrightarrow>
     (\<exists>j0. (m, j0) \<in> set (js_goroutines s) \<and> j = (if m = n then f j0 else j0))"
  by (auto simp: set_job_def split: if_splits intro: rev_image_eqI [of "(m, _)"])

lemma set_thread_fields [simp]:
  "js_mu (set_thread k p s) = js_mu s" "js_started (set_thread k p s) = js_started s"
  "js_rate (set_thread k p s) = js_rate s" "js_rate_cap (set_thread k p s) = js_rate_cap s"
  "js_goroutines (set_thread k p s) = js_goroutines s" "js_fresh (set_thread k p s) = js_fresh s"
  "js_env (set_thread k p s) = js_env s" "js_starting (set_thread k p s) = js_starting s"
  "js_ticking (set_thread k p s) = js_ticking s" "js_ticks (set_thread k p s) = js_ticks s"
  by (simp_all add: set_thread_def)

lemma stop_ticker_fields [simp]:
  "js_mu (stop_ticker t s) = js_mu s" "js_started (stop_ticker t s) = js_started s"
  "js_rate (stop_ticker t s) = js_rate s" "js_rate_cap (stop_ticker t s) = js_rate_cap s"
  "js_goroutines (stop_ticker t s) = js_goroutines s" "js_threads (stop_ticker t s) = js_threads s"
  "js_env (stop_ticker t s) = js_env s" "js_starting (stop_ticker t s) = js_starting s"
  by (simp_all add: stop_ticker_def split: option.splits)

lemma set_thread_names [simp]:
  "fst ` set (js_threads (set_thread k p s)) = fst ` set (js_threads s)"
proof -
  have "map fst (js_threads (set_thread k p s)) = map fst (js_threads s)"
    by (cases "k < length (js_threads s)") (auto simp: set_thread_def map_update list_update_same_conv list_update_beyond)
  then show ?thesis by (metis list.set_map)
qed

lemma thread_count_set:
  assumes "thread_at s k n q"
  shows "thread_count P (set_thread k p s) + of_bool (P (n, q)) = thread_count P s + of_bool (P (n, p))"
  using count_update [of k "js_threads s" P "(n, p)"] assms
  by (simp add: thread_count_def set_thread_def thread_at_def)

lemma thread_count_pos: "thread_at s k n q \<Longrightarrow> P (n, q) \<Longrightarrow> 0 < thread_count P s"
  by (auto simp: thread_count_def thread_at_def filter_empty_conv) (metis nth_mem)

lemma sched_inv_rate: "sched_inv s \<Longrightarrow> js_rate s \<le> js_rate_cap s"
  by (simp add: sched_inv_def)

lemma sched_inv_token: "sched_inv s \<Longrightarrow> thread_at s k n q \<Longrightarrow> holds_token q \<Longrightarrow> 0 < js_rate s"
  using thread_count_pos [of s k n q "holds_token \<circ> snd"] by (simp add: sched_inv_def)

text \<open>A move of one thread keeps the invariant if the tokens follow it.\<close>

lemma sched_inv_move:
  assumes "sched_inv s" and at: "thread_at s k n q" and "q \<noteq> Ended" and "p \<noteq> Ended"
    and "r + of_bool (holds_token q) = js_rate s + of_bool (holds_token p)" and "r \<le> js_rate_cap s"
  shows "sched_inv ((set_thread k p s)\<lparr>js_rate := r, js_fresh := fr\<rparr>)"
proof -
  have "thread_count (waited_for m) (set_thread k p s) = thread_count (waited_for m) s" for m
    using thread_count_set [OF at, of "waited_for m" p] assms(3,4) by (simp add: waited_for_def)
  moreover have "thread_count (holds_token \<circ> snd) (set_thread k p s) = r"
    using thread_count_set [OF at, of "holds_token \<circ> snd" p] assms(1,5) by (simp add: sched_inv_def)
  ultimately show ?thesis
    using assms(1,6) by (simp add: sched_inv_def thread_count_def)
qed

lemma sched_inv_moves:
  assumes "sched_inv s" and at: "thread_at s k n q" and "q \<noteq> Ended" and "p \<noteq> Ended"
  shows "holds_token q \<longleftrightarrow> holds_token p \<Longrightarrow> sched_inv (set_thread k p s)"
    and "holds_token q \<longleftrightarrow> holds_token p \<Longrightarrow> sched_inv ((set_thread k p s)\<lparr>js_fresh := fr\<rparr>)"
    and "\<not> holds_token q \<Longrightarrow> holds_token p \<Longrightarrow> js_rate s < js_rate_cap s \<Longrightarrow>
      sched_inv ((set_thread k p s)\<lparr>js_rate := Suc (js_rate s)\<rparr>)"
    and "holds_token q \<Longrightarrow> \<not> holds_token p \<Longrightarrow>
      sched_inv ((set_thread k p s)\<lparr>js_rate := js_rate s - Suc 0\<rparr>)"
  using sched_inv_move [OF assms, of "js_rate s" fr] sched_inv_move [OF assms, of "js_rate s" "js_fresh s"]
    sched_inv_move [OF assms, of "js_rate s + 1" "js_fresh s"]
    sched_inv_move [OF assms, of "js_rate s - 1" "js_fresh s"]
    sched_inv_rate [OF assms(1)] sched_inv_token [OF assms(1) at]
  by (simp_all add: set_thread_def)

lemma sched_inv_return:
  assumes "sched_inv s" and at: "thread_at s k n (Selecting c t)"
  shows "sched_inv (set_job n (\<lambda>j. j\<lparr>j_wg := j_wg j - 1\<rparr>) (set_thread k Ended s))"
proof -
  let ?s = "set_thread k Ended s"
  have "thread_count (waited_for m) ?s + of_bool (m = n) = thread_count (waited_for m) s" for m
    using thread_count_set [OF at, of "waited_for m" Ended] by (auto simp: waited_for_def)
  then have wg: "thread_count (waited_for m) ?s = thread_count (waited_for m) s - of_bool (m = n)" for m
    by (metis diff_add_inverse2)
  have tok: "thread_count (holds_token \<circ> snd) ?s = thread_count (holds_token \<circ> snd) s"
    using thread_count_set [OF at, of "holds_token \<circ> snd" Ended] by (simp add: holds_token_def)
  show ?thesis using assms(1) wg tok
    unfolding sched_inv_def by (auto simp: thread_count_def set_job_wg)
qed

lemma sched_inv_fields [simp]:
  "sched_inv (s\<lparr>js_started := b\<rparr>) = sched_inv s" "sched_inv (s\<lparr>js_mu := b\<rparr>) = sched_inv s"
  "sched_inv (s\<lparr>js_env := e\<rparr>) = sched_inv s" "sched_inv (s\<lparr>js_starting := c\<rparr>) = sched_inv s"
  "sched_inv (s\<lparr>js_ticking := ts\<rparr>) = sched_inv s" "sched_inv (s\<lparr>js_ticks := ts\<rparr>) = sched_inv s"
  by (simp_all add: sched_inv_def thread_count_def)

lemma sched_inv_stop_ticker [simp]: "sched_inv (stop_ticker t s) = sched_inv s"
  by (simp add: stop_ticker_def split: option.split)

lemma thread_step_inv [inv_intros]:
  assumes "thread_step s s'" and "sched_inv s"
  shows "sched_inv s'"
  using assms(1)
  by (cases rule: thread_step.cases)
    (auto intro: sched_inv_moves [OF assms(2)] sched_inv_return [OF assms(2), simplified] simp: holds_token_def)

lemma work_step_inv [inv_intros]: "work_step s s' \<Longrightarrow> sched_inv s \<Longrightarrow> sched_inv s'"
  by (auto elim!: work_step.cases intro: thread_step_inv)

lemma sched_inv_set_job:
  "sched_inv s \<Longrightarrow> (\<And>j. j_wg (f j) = j_wg j) \<Longrightarrow> sched_inv (set_job n f s)"
  by (auto simp: sched_inv_def thread_count_def set_job_wg; metis)

lemma sched_inv_Add [inv_intros]:
  assumes "sched_inv s"
  shows "sched_inv (fst (Add cfg s))"
proof -
  have "thread_count (waited_for n) s = 0" if "n \<notin> fst ` set (js_goroutines s)" for n
    using assms that by (auto simp: sched_inv_def thread_count_def waited_for_def filter_empty_conv)
  with assms show ?thesis
    by (auto simp: Add_def sched_inv_def thread_count_def map_of_eq_None_iff)
qed

lemma sched_inv_start_job:
  assumes "sched_inv s" and "start_job ctx n s = (s1, r)"
  shows "sched_inv s1"
proof (cases "map_of (js_goroutines s) n")
  case None
  with assms show ?thesis by (simp add: start_job_def)
next
  case (Some j)
  let ?s = "s\<lparr>js_fresh := js_fresh s + 1\<rparr>"
  let ?t = "s\<lparr>js_fresh := js_fresh s + 1, js_ticking := insert (js_fresh s) (js_ticking s),
    js_threads := js_threads s @ [(n, Spawned ctx)]\<rparr>"
  have "n \<in> fst ` set (js_goroutines s)" using Some by (force dest: map_of_SomeD)
  moreover have "thread_count (waited_for m) ?t = thread_count (waited_for m) s + of_bool (m = n)"
    "thread_count (holds_token \<circ> snd) ?t = thread_count (holds_token \<circ> snd) s" for m
    by (auto simp: thread_count_def waited_for_def holds_token_def)
  ultimately have "sched_inv (set_job n (\<lambda>j. j\<lparr>j_ctx := x, j_ticker := y, j_wg := j_wg j + 1\<rparr>) ?t)" for x y
    using assms(1) unfolding sched_inv_def by (auto simp: thread_count_def set_job_wg)
  moreover have "sched_inv (set_job n (\<lambda>j. j\<lparr>j_ctx := x, j_rmu := True\<rparr>) ?s)" for x
    using assms(1) by (intro sched_inv_set_job) (auto simp: sched_inv_def thread_count_def)
  ultimately show ?thesis
    using assms Some by (auto simp: start_job_def split: if_splits)
qed

lemma sched_inv_cancel_job: "sched_inv s \<Longrightarrow> sched_inv (fst (cancel_job nj s))"
  by (auto simp: cancel_job_def Let_def split: prod.splits option.splits)

lemma sched_inv_cancel_jobs: "sched_inv s \<Longrightarrow> sched_inv (fst (cancel_jobs jobs s))"
proof (induction jobs arbitrary: s)
  case (Cons nj jobs)
  from sched_inv_cancel_job [OF Cons.prems, of nj] Cons.IH show ?case
    by (auto split: prod.splits api_end.splits)
qed simp

lemma sched_inv_Stop_signal [inv_intros]: "sched_inv s \<Longrightarrow> sched_inv (fst (Stop_signal s))"
  by (simp add: Stop_signal_def sched_inv_cancel_jobs)

lemma sched_step_inv:
  assumes "sched_step s s'" and "sched_inv s"
  shows "sched_inv s'"
  using assms(1)
proof (cases rule: sched_step.cases)
  case (ss_start s1 ns ctx)
  then show ?thesis using assms(2) by (auto simp: start_begin_def split: if_splits)
next
  case (ss_start_job k ctx n ns s1 r)
  then show ?thesis using sched_inv_start_job [OF assms(2)] by simp
qed (use assms(2) in \<open>auto simp: inv_intros\<close>)

interpretation scheduling: inductive_invariant sched_init sched_step sched_inv
proof
  show "sched_init s \<Longrightarrow> sched_inv s" for s
    by (auto simp: sched_init_def sched_inv_def NewJobScheduler_def thread_count_def Let_def)
qed (rule sched_step_inv)

lemma Stop_waited_ended:
  assumes "sched_inv s" and "Stop_waited s" and "th \<in> set (js_threads s)"
  shows "snd th = Ended"
proof -
  obtain j where "(fst th, j) \<in> set (js_goroutines s)"
    using assms(1,3) unfolding sched_inv_def by force
  with assms(1,2) have "thread_count (waited_for (fst th)) s = 0"
    unfolding sched_inv_def Stop_waited_def by fastforce
  with assms(3) show ?thesis by (auto simp: thread_count_def filter_empty_conv waited_for_def)
qed

section \<open>Skipped goroutines\<close>

lemma set_thread_keeps_skipped:
  assumes "thread_at s k m q" and "q \<noteq> Skipped" and "(n, Skipped) \<in> set (js_threads s)"
  shows "(n, Skipped) \<in> set (js_threads (set_thread k p s))"
proof -
  obtain i where i: "i < length (js_threads s)" "js_threads s ! i = (n, Skipped)"
    using assms(3) by (auto simp: in_set_conv_nth)
  with assms(1,2) have "k \<noteq> i" by (auto simp: thread_at_def)
  with i have "js_threads (set_thread k p s) ! i = (n, Skipped)" "i < length (js_threads (set_thread k p s))"
    by (simp_all add: set_thread_def)
  then show ?thesis by (metis nth_mem)
qed

lemma thread_step_skipped:
  "thread_step s s' \<Longrightarrow> (n, Skipped) \<in> set (js_threads s) \<Longrightarrow> (n, Skipped) \<in> set (js_threads s')"
  by (induction rule: thread_step.induct) (auto intro: set_thread_keeps_skipped)

lemma work_step_skipped:
  "work_step s s' \<Longrightarrow> (n, Skipped) \<in> set (js_threads s) \<Longrightarrow> (n, Skipped) \<in> set (js_threads s')"
  by (auto elim!: work_step.cases intro: thread_step_skipped)

lemma cancel_jobs_threads: "js_threads (fst (cancel_jobs jobs s)) = js_threads s"
proof (induction jobs arbitrary: s)
  case (Cons nj jobs)
  have "js_threads (fst (cancel_job nj s)) = js_threads s"
    by (auto simp: cancel_job_def Let_def split: prod.splits option.splits)
  with Cons.IH show ?case by (auto split: prod.splits api_end.splits)
qed simp

lemma sched_step_skipped:
  assumes "sched_step s s'" and "(n, Skipped) \<in> set (js_threads s)"
  shows "(n, Skipped) \<in> set (js_threads s')"
  using assms
  by (cases rule: sched_step.cases)
    (auto simp: work_step_skipped Add_def start_begin_def start_job_def Stop_signal_def
      cancel_jobs_threads split: if_splits option.splits)

section \<open>Sequences of calls\<close>

lemma start_jobs_inv:
  "sched_inv s \<Longrightarrow> start_jobs ctx ns s = (s', r) \<Longrightarrow> sched_inv s' \<and> js_started s' = js_started s"
proof (induction ns arbitrary: s)
  case (Cons n ns)
  obtain s1 r1 where s1: "start_job ctx n s = (s1, r1)" by fastforce
  then have "js_started s1 = js_started s"
    by (auto simp: start_job_def split: option.splits if_splits)
  with s1 Cons sched_inv_start_job [OF Cons.prems(1) s1] show ?case
    by (auto split: api_end.splits)
qed simp

lemma Start_seq_inv:
  assumes "sched_seq_inv s" and "Start ctx s = (s', Returns)"
  shows "sched_seq_inv s' \<and> js_started s'"
proof (cases "js_started s")
  case True
  with assms show ?thesis by (auto simp: Start_def start_begin_def split: if_splits)
next
  case False
  with assms(2) have "start_jobs ctx (map fst (js_goroutines s)) (s\<lparr>js_started := True\<rparr>) = (s', Returns)"
    by (auto simp: Start_def start_begin_def split: if_splits)
  from start_jobs_inv [OF _ this] assms(1) show ?thesis by (simp add: sched_seq_inv_def)
qed

lemma work_step_started: "work_step s s' \<Longrightarrow> js_started s' = js_started s \<and> js_mu s' = js_mu s"
  by (auto elim!: work_step.cases thread_step.cases)

lemma work_steps_started: "work_step\<^sup>*\<^sup>* s s' \<Longrightarrow> js_started s' = js_started s"
  by (induction rule: rtranclp_induct) (auto dest: work_step_started)

lemma work_steps_inv: "work_step\<^sup>*\<^sup>* s s' \<Longrightarrow> sched_inv s \<Longrightarrow> sched_inv s'"
  by (induction rule: rtranclp_induct) (auto intro: work_step_inv)

lemma cancel_jobs_started: "js_started (fst (cancel_jobs jobs s)) = js_started s"
proof (induction jobs arbitrary: s)
  case (Cons nj jobs)
  obtain s1 r1 where s1: "cancel_job nj s = (s1, r1)" by fastforce
  then have "js_started s1 = js_started s"
    by (auto simp: cancel_job_def Let_def split: prod.splits option.splits if_splits)
  with s1 Cons.IH [of s1] show ?case by (cases r1) simp_all
qed simp

lemma Stop_call_idle:
  assumes "sched_seq_inv s" and "Stop_call s s'"
  shows "sched_seq_inv s' \<and> \<not> js_started s' \<and> all_ended s'"
proof (cases "js_started s")
  case False
  with assms show ?thesis by (auto simp: Stop_call_def Stop_signal_def sched_seq_inv_def split: if_splits)
next
  case True
  with assms(2) obtain s1 where s1: "Stop_signal s = (s1, Returns)" "work_step\<^sup>*\<^sup>* s1 s'" "Stop_waited s'"
    by (auto simp: Stop_call_def)
  have "sched_inv s'"
    using work_steps_inv [OF s1(2)] sched_inv_Stop_signal [of s] s1(1) assms(1)
    by (simp add: sched_seq_inv_def)
  moreover have "\<not> js_started s1"
    using s1(1) True cancel_jobs_started [of "js_goroutines s" "s\<lparr>js_started := False\<rparr>"]
    by (auto simp: Stop_signal_def split: if_splits)
  ultimately show ?thesis
    using Stop_waited_ended [of s'] s1(3) work_steps_started [OF s1(2)]
    by (auto simp: sched_seq_inv_def all_ended_def)
qed

interpretation sched: job_scheduler Start Stop_call js_started all_ended sched_seq_inv
  by unfold_locales (fact Start_seq_inv Stop_call_idle)+

lemma demo_sched_init: "sched_inv (demo_sched b)"
  unfolding demo_sched_def
  by (intro sched_inv_Add) (simp add: sched_inv_def NewJobScheduler_def thread_count_def)

lemma demo_sched_reachable: "reachable sched_init sched_step (demo_sched b)"
proof -
  have "reachable sched_init sched_step (NewJobScheduler (demo_env b) 1 0)"
    by (rule reach_init) (auto simp: sched_init_def)
  from reach_step [OF this ss_add] show ?thesis by (simp add: demo_sched_def)
qed

lemma demo_started_reachable:
  "reachable sched_init sched_step
     ((fst (Start (WithCancel 0 Background) (demo_sched b)))\<lparr>js_starting := [(WithCancel 0 Background, [])]\<rparr>)"
    (is "reachable _ _ ?t")
proof -
  let ?c = "WithCancel 0 Background"
  let ?s1 = "(demo_sched b)\<lparr>js_started := True, js_starting := [(?c, [''beat''])]\<rparr>"
  have "reachable sched_init sched_step ?s1"
    using reach_step [OF demo_sched_reachable ss_start, of b "(demo_sched b)\<lparr>js_started := True\<rparr>" "[''beat'']" ?c]
    by (simp add: start_begin_def demo_sched_def Add_def NewJobScheduler_def demo_cfg_def)
  moreover have "sched_step ?s1 ?t"
    using ss_start_job [of 0 ?s1 ?c "''beat''" "[]" "fst (start_job ?c ''beat'' ?s1)" Returns]
    by (simp add: Start_def start_begin_def start_job_def demo_sched_def Add_def NewJobScheduler_def
        demo_cfg_def set_job_def Second_def)
  ultimately show ?thesis by (rule reach_step)
qed

section \<open>Properties\<close>

text \<open>
  C6. At most \<^verbatim>\<open>rate\<close> job functions run at the same time, for every interleaving of the goroutines with
  calls of \<^verbatim>\<open>Add\<close>, \<^verbatim>\<open>Start\<close> and \<^verbatim>\<open>Stop\<close>; the tokens in the channel are exactly the executions in progress.
\<close>

theorem scheduler_rate_limit:
  assumes "reachable sched_init sched_step s"
  shows "length (filter (\<lambda>(n, p). holds_token p) (js_threads s)) = js_rate s \<and> js_rate s \<le> js_rate_cap s"
proof -
  have "(\<lambda>(n, p). holds_token p) = holds_token \<circ> (snd :: string \<times> place \<Rightarrow> place)"
    by (auto simp: fun_eq_iff)
  with scheduling.invariant [OF assms] show ?thesis by (simp add: sched_inv_def thread_count_def)
qed

theorem scheduler_rate_limit_witness:
  "js_rate (demo_sched False) \<le> js_rate_cap (demo_sched False) \<and> js_rate_cap (demo_sched False) = 1"
  using scheduler_rate_limit [OF demo_sched_reachable, of False]
  by (simp add: demo_sched_def Add_def NewJobScheduler_def)



text \<open>
  \<^verbatim>\<open>Add\<close> files a job exactly when the scheduler is not started and the name is new, and returns an
  error otherwise; the other jobs are untouched. A job that was added is the one \<^verbatim>\<open>Start\<close> will run.
\<close>

theorem Add_spec:
  assumes "\<not> js_mu s"
  shows "\<exists>s' err. Add cfg s = (s', Returns, err) \<and>
    (err = None \<longleftrightarrow> \<not> js_started s \<and> map_of (js_goroutines s) (Name cfg) = None) \<and>
    (err \<noteq> None \<longrightarrow> s' = s) \<and>
    (err = None \<longrightarrow> (\<exists>j. map_of (js_goroutines s') = (map_of (js_goroutines s))(Name cfg \<mapsto> j) \<and>
       j_fn j = Func cfg \<and> j_tick j = Tick cfg \<and> j_deadline j = Deadline cfg \<and>
       j_stopMode j = cfg_StopMode cfg \<and> j_wg j = 0))"
proof -
  have "map_of (xs @ [(n, j)]) = (map_of xs)(n \<mapsto> j)" if "map_of xs n = None"
    for xs :: "(string \<times> job) list" and n j
    using that by (auto simp: map_add_def fun_eq_iff split: option.splits)
  with assms show ?thesis by (auto simp: Add_def)
qed

theorem Add_spec_witness:
  "\<exists>s' err. Add demo_cfg (demo_sched False) = (s', Returns, err) \<and> err \<noteq> None"
proof -
  have "\<not> js_mu (demo_sched False)" by (simp add: demo_sched_def Add_def NewJobScheduler_def)
  from Add_spec [OF this, of demo_cfg] show ?thesis
    by (auto simp: demo_sched_def Add_def NewJobScheduler_def)
qed

text \<open>
  The stop mode decides what \<^verbatim>\<open>Stop\<close> means for a running function: with \<^verbatim>\<open>StopImmediate\<close> its context
  ends with the job's context, with \<^verbatim>\<open>StopGraceful\<close> only with the deadline (or its own cancellation), so
  the function may finish its work; in both modes the deadline bounds it.
\<close>

theorem exec_ctx_stop_mode:
  assumes "exec_ctx i t j = Some c"
  shows "ctx_done e c \<longleftrightarrow> i \<in> env_cancelled e \<or> t + j_deadline j \<le> env_now e \<or>
    (j_stopMode j = StopImmediate \<and> ctx_done e (job_ctx j))"
  using assms by (auto simp: exec_ctx_def split: StopMode.splits)

theorem exec_ctx_stop_mode_witness:
  "\<exists>c. exec_ctx 7 0 ((snd (hd (js_goroutines (demo_sched True))))\<lparr>j_ctx := Some (0, Background)\<rparr>) = Some c \<and>
     ctx_done (demo_env True) c"
proof -
  let ?j = "(snd (hd (js_goroutines (demo_sched True))))\<lparr>j_ctx := Some (0, Background)\<rparr>"
  have c: "exec_ctx 7 0 ?j = Some (WithTimeout 7 (0 + j_deadline ?j) (WithCancel 0 Background))"
    by (simp add: exec_ctx_def job_ctx_def demo_sched_def Add_def NewJobScheduler_def demo_cfg_def)
  from exec_ctx_stop_mode [OF this, of "demo_env True"] c show ?thesis
    by (simp add: demo_sched_def Add_def NewJobScheduler_def demo_cfg_def job_ctx_def demo_env_def)
qed

text \<open>
  A goroutine that \<^verbatim>\<open>GoRecover\<close> did not start, because the context given to \<^verbatim>\<open>Start\<close> was already done,
  never calls \<^verbatim>\<open>wg.Done\<close>: from then on the wait of \<^verbatim>\<open>Stop\<close> can never end.
\<close>

theorem skipped_goroutine_blocks_Stop:
  assumes "reachable sched_init sched_step s" and "(n, Skipped) \<in> set (js_threads s)"
    and "sched_step\<^sup>*\<^sup>* s s'"
  shows "\<not> Stop_waited s'"
proof
  assume "Stop_waited s'"
  have "(n, Skipped) \<in> set (js_threads s')"
    using assms(3,2) by (induction rule: rtranclp_induct) (auto intro: sched_step_skipped)
  moreover have "sched_inv s'"
    using scheduling.invariant [OF reachable_steps [OF assms(1,3)]] .
  ultimately show False using Stop_waited_ended [OF _ \<open>Stop_waited s'\<close>] by fastforce
qed

theorem skipped_goroutine_blocks_Stop_witness:
  "\<exists>s. reachable sched_init sched_step s \<and> (''beat'', Skipped) \<in> set (js_threads s) \<and> \<not> Stop_waited s"
proof -
  let ?s = "(fst (Start (WithCancel 0 Background) (demo_sched True)))\<lparr>js_starting := [(WithCancel 0 Background, [])]\<rparr>"
  have th: "js_threads ?s = [(''beat'', Spawned (WithCancel 0 Background))]"
    and env: "js_env ?s = demo_env True"
    by (simp_all add: Start_def start_begin_def start_job_def demo_sched_def Add_def NewJobScheduler_def
        demo_cfg_def Second_def)
  then have "thread_step ?s (set_thread 0 Skipped ?s)"
    by (intro th_skip [of _ 0 "''beat''" "WithCancel 0 Background"]) (simp_all add: thread_at_def demo_env_def)
  then have r: "reachable sched_init sched_step (set_thread 0 Skipped ?s)"
    by (rule reach_step [OF demo_started_reachable ss_work [OF ws_thread]])
  have m: "(''beat'', Skipped) \<in> set (js_threads (set_thread 0 Skipped ?s))"
    using th by (simp add: set_thread_def)
  with r skipped_goroutine_blocks_Stop [OF r m rtranclp.rtrancl_refl] show ?thesis by blast
qed

text \<open>
  A job with a non-positive tick breaks the scheduler: \<^verbatim>\<open>Start\<close> panics in \<^verbatim>\<open>time.NewTicker\<close> with the job's
  mutex held and \<^verbatim>\<open>started\<close> set, a following \<^verbatim>\<open>Stop\<close> waits for that mutex for ever, and from then on
  every method does, since \<^verbatim>\<open>Stop\<close> holds the scheduler's mutex.
\<close>

theorem nonpositive_tick_blocks_scheduler:
  assumes "\<not> js_mu s" and "\<not> js_started s" and "js_goroutines s = (n, j) # jobs"
    and "\<not> j_rmu j" and "j_tick j \<le> 0"
  shows "\<exists>s1 s2 e. Start ctx s = (s1, Panics e) \<and> Stop_signal s1 = (s2, Blocks) \<and>
    Add cfg s2 = (s2, Blocks, None) \<and> Start ctx' s2 = (s2, Blocks) \<and> Stop_signal s2 = (s2, Blocks)"
  using assms
  by (simp add: Start_def start_begin_def start_job_def set_job_def Stop_signal_def cancel_job_def
      Add_def Let_def)

theorem nonpositive_tick_blocks_scheduler_witness:
  "\<exists>s1 s2 e. Start Background (fst (Add (demo_cfg\<lparr>Tick := 0\<rparr>) (NewJobScheduler (demo_env False) 1 1))) = (s1, Panics e) \<and>
     Stop_signal s1 = (s2, Blocks)"
proof -
  let ?s = "fst (Add (demo_cfg\<lparr>Tick := 0\<rparr>) (NewJobScheduler (demo_env False) 1 1))"
  let ?j = "snd (hd (js_goroutines ?s))"
  have "\<not> js_mu ?s" "\<not> js_started ?s" "js_goroutines ?s = (''beat'', ?j) # []" "\<not> j_rmu ?j" "j_tick ?j \<le> 0"
    by (simp_all add: Add_def NewJobScheduler_def demo_cfg_def)
  from nonpositive_tick_blocks_scheduler [OF this] show ?thesis by blast
qed

text \<open>
  A \<^verbatim>\<open>Stop\<close> that comes between the two parts of a \<^verbatim>\<open>Start\<close> (after \<^verbatim>\<open>started\<close> is set, before the loop gave
  a job its context) calls a nil function: it panics with the scheduler's mutex held.
\<close>

theorem Stop_during_Start_panics:
  assumes "\<not> js_mu s" and "\<not> js_started s" and "js_goroutines s = (n, j) # jobs" and "j_ctx j = None"
  shows "\<exists>s1 ns s2 e. start_begin s = (s1, Returns, ns) \<and> Stop_signal s1 = (s2, Panics e) \<and>
    Stop_signal s2 = (s2, Blocks)"
  using assms by (simp add: start_begin_def Stop_signal_def cancel_job_def)

theorem Stop_during_Start_panics_witness:
  "\<exists>s1 ns s2 e. start_begin (demo_sched False) = (s1, Returns, ns) \<and> Stop_signal s1 = (s2, Panics e)"
proof -
  let ?j = "snd (hd (js_goroutines (demo_sched False)))"
  have "\<not> js_mu (demo_sched False)" "\<not> js_started (demo_sched False)"
    "js_goroutines (demo_sched False) = (''beat'', ?j) # []" "j_ctx ?j = None"
    by (simp_all add: demo_sched_def Add_def NewJobScheduler_def demo_cfg_def)
  from Stop_during_Start_panics [OF this] show ?thesis by blast
qed

text \<open>
  After \<^verbatim>\<open>TaskSupervisor.Stop\<close> has returned, every scheduler it supervises is stopped and has no
  goroutine left, provided each was only used by its supervisor.
\<close>

theorem TaskSupervisor_Stop_idle:
  assumes "\<forall>s \<in> set ss. sched_seq_inv s" and "TaskSupervisor_Stop Stop_call ss ss'"
  shows "length ss' = length ss \<and> (\<forall>s \<in> set ss'. \<not> js_started s \<and> all_ended s)"
  using sched.stop_all [OF assms] by blast

theorem TaskSupervisor_Stop_idle_witness:
  "TaskSupervisor_Stop Stop_call [demo_sched False] [demo_sched False] \<and> all_ended (demo_sched False)"
proof -
  have a: "\<forall>s \<in> set [demo_sched False]. sched_seq_inv s"
    using demo_sched_init [of False]
    by (simp add: sched_seq_inv_def all_ended_def demo_sched_def Add_def NewJobScheduler_def)
  have b: "TaskSupervisor_Stop Stop_call [demo_sched False] [demo_sched False]"
    by (simp add: Stop_call_def Stop_signal_def demo_sched_def Add_def NewJobScheduler_def)
  from TaskSupervisor_Stop_idle [OF a b] b show ?thesis by simp
qed

end
