(* ===== verification/Readiness_Barrier.thy ===== *)
theory Readiness_Barrier
  imports Go_Prelude
begin

text \<open>
  The package \<^verbatim>\<open>readiness_barrier\<close>: a flag that follows the signals sent to a listening goroutine.

  The methods are not atomic: \<^verbatim>\<open>Start\<close> and \<^verbatim>\<open>Stop\<close> begin with a compare-and-swap of \<^verbatim>\<open>running\<close> and go on
  without a lock, and \<^verbatim>\<open>SendSignalCtx\<close> checks \<^verbatim>\<open>running\<close> before it sends. A call in progress is
  therefore an entry of \<open>rb_calls\<close> saying how far it is, and \<open>barrier_step\<close> interleaves the calls with
  the listeners. A listener is known by the number of the cancel function of its context.
  \<open>rb_sent\<close> records the signals that were accepted; nothing reads it.
\<close>

section \<open>Data\<close>

definition ReadySignalToggle :: string where "ReadySignalToggle = ''ready''"

definition NotReadySignalToggle :: string where "NotReadySignalToggle = ''not_ready''"

definition signals_cap :: nat where "signals_cap = 4"

datatype rb_call =
    StartEntered
  | StartStored nat
  | StopEntered
  | StopWaiting
  | StopDraining
  | StopDrained
  | SendChecked string

record ReadinessBarrier =
  rb_name :: string
  rb_signals :: "string list"
  rb_readinessFlag :: bool
  rb_parent_done :: bool
  rb_running :: bool
  rb_runCancel :: "nat option"
  rb_wg :: nat
  rb_listeners :: "nat list"
  rb_cancelled :: "nat set"
  rb_fresh :: nat
  rb_calls :: "rb_call list"
  rb_sent :: "string list"

definition setReady :: "ReadinessBarrier \<Rightarrow> ReadinessBarrier" where
  "setReady r = r\<lparr>rb_readinessFlag := True\<rparr>"

definition setNotReady :: "ReadinessBarrier \<Rightarrow> ReadinessBarrier" where
  "setNotReady r = r\<lparr>rb_readinessFlag := False\<rparr>"

definition IsReady :: "ReadinessBarrier \<Rightarrow> bool" where
  "IsReady r = rb_readinessFlag r"

definition NewReadinessBarrier :: "bool \<Rightarrow> string \<Rightarrow> ReadinessBarrier" where
  "NewReadinessBarrier parent_done name =
     setNotReady \<lparr>rb_name = name, rb_signals = [], rb_readinessFlag = False,
       rb_parent_done = parent_done, rb_running = False, rb_runCancel = None, rb_wg = 0,
       rb_listeners = [], rb_cancelled = {}, rb_fresh = 0, rb_calls = [], rb_sent = []\<rparr>"

section \<open>Start\<close>

definition start_enter :: "ReadinessBarrier \<Rightarrow> ReadinessBarrier" where
  "start_enter r =
     (if rb_running r then r else r\<lparr>rb_running := True, rb_calls := rb_calls r @ [StartEntered]\<rparr>)"

definition set_call :: "nat \<Rightarrow> rb_call option \<Rightarrow> ReadinessBarrier \<Rightarrow> ReadinessBarrier" where
  "set_call k c r =
     r\<lparr>rb_calls := (case c of None \<Rightarrow> take k (rb_calls r) @ drop (Suc k) (rb_calls r)
                    | Some c' \<Rightarrow> (rb_calls r)[k := c'])\<rparr>"

definition start_store :: "nat \<Rightarrow> ReadinessBarrier \<Rightarrow> ReadinessBarrier" where
  "start_store k r =
     set_call k (Some (StartStored (rb_fresh r)))
       (r\<lparr>rb_runCancel := Some (rb_fresh r), rb_fresh := rb_fresh r + 1\<rparr>)"

definition start_spawn :: "nat \<Rightarrow> nat \<Rightarrow> ReadinessBarrier \<Rightarrow> ReadinessBarrier" where
  "start_spawn k i r =
     set_call k None (r\<lparr>rb_wg := rb_wg r + 1, rb_listeners := rb_listeners r @ [i]\<rparr>)"

section \<open>Stop\<close>

definition stop_enter :: "ReadinessBarrier \<Rightarrow> ReadinessBarrier" where
  "stop_enter r =
     (if \<not> rb_running r then r else r\<lparr>rb_running := False, rb_calls := rb_calls r @ [StopEntered]\<rparr>)"

definition stop_cancel :: "nat \<Rightarrow> ReadinessBarrier \<Rightarrow> ReadinessBarrier" where
  "stop_cancel k r =
     set_call k (Some StopWaiting)
       (case rb_runCancel r of None \<Rightarrow> r
        | Some i \<Rightarrow> r\<lparr>rb_cancelled := insert i (rb_cancelled r), rb_runCancel := None\<rparr>)"

text \<open>The wait for the listeners, the loop that drops waiting signals, and the final reset.\<close>

definition stop_waited :: "nat \<Rightarrow> ReadinessBarrier \<Rightarrow> ReadinessBarrier" where
  "stop_waited k r = set_call k (Some StopDraining) r"

definition stop_drop :: "nat \<Rightarrow> ReadinessBarrier \<Rightarrow> ReadinessBarrier" where
  "stop_drop k r =
     (case rb_signals r of
        [] \<Rightarrow> set_call k (Some StopDrained) r
      | _ # rest \<Rightarrow> r\<lparr>rb_signals := rest\<rparr>)"

definition stop_reset :: "nat \<Rightarrow> ReadinessBarrier \<Rightarrow> ReadinessBarrier" where
  "stop_reset k r = set_call k None (setNotReady r)"

section \<open>SendSignalCtx and listen\<close>

definition SendSignalCtx_check :: "string \<Rightarrow> ReadinessBarrier \<Rightarrow> ReadinessBarrier \<times> go_error option" where
  "SendSignalCtx_check sig r =
     (if \<not> rb_running r
      then (r, Some (ErrorString (''readiness barrier '' @ rb_name r @ '': not running'')))
      else (r\<lparr>rb_calls := rb_calls r @ [SendChecked sig]\<rparr>, None))"

definition SendSignalCtx_put :: "nat \<Rightarrow> string \<Rightarrow> ReadinessBarrier \<Rightarrow> ReadinessBarrier" where
  "SendSignalCtx_put k sig r =
     set_call k None (r\<lparr>rb_signals := rb_signals r @ [sig], rb_sent := rb_sent r @ [sig]\<rparr>)"

definition SendSignalCtx_cancelled :: "nat \<Rightarrow> ReadinessBarrier \<Rightarrow> ReadinessBarrier \<times> go_error" where
  "SendSignalCtx_cancelled k r =
     (set_call k None r,
      ErrorString (''readiness barrier '' @ rb_name r @ '': context cancelled while sending signal''))"

definition toggle :: "string \<Rightarrow> ReadinessBarrier \<Rightarrow> ReadinessBarrier" where
  "toggle sig r =
     (if sig = ReadySignalToggle then setReady r
      else if sig = NotReadySignalToggle then setNotReady r else r)"

definition listen_receive :: "ReadinessBarrier \<Rightarrow> ReadinessBarrier" where
  "listen_receive r =
     (case rb_signals r of [] \<Rightarrow> r | sig # rest \<Rightarrow> toggle sig (r\<lparr>rb_signals := rest\<rparr>))"

definition listen_return :: "nat \<Rightarrow> ReadinessBarrier \<Rightarrow> ReadinessBarrier" where
  "listen_return i r = r\<lparr>rb_listeners := remove1 i (rb_listeners r), rb_wg := rb_wg r - 1\<rparr>"

section \<open>Interleaving\<close>

definition call_at :: "ReadinessBarrier \<Rightarrow> nat \<Rightarrow> rb_call \<Rightarrow> bool" where
  "call_at r k c \<longleftrightarrow> k < length (rb_calls r) \<and> rb_calls r ! k = c"

inductive barrier_step :: "ReadinessBarrier \<Rightarrow> ReadinessBarrier \<Rightarrow> bool" where
  bs_start: "barrier_step r (start_enter r)"
| bs_store: "call_at r k StartEntered \<Longrightarrow> barrier_step r (start_store k r)"
| bs_spawn: "call_at r k (StartStored i) \<Longrightarrow> barrier_step r (start_spawn k i r)"
| bs_stop: "barrier_step r (stop_enter r)"
| bs_cancel: "call_at r k StopEntered \<Longrightarrow> barrier_step r (stop_cancel k r)"
| bs_waited: "call_at r k StopWaiting \<Longrightarrow> rb_wg r = 0 \<Longrightarrow> barrier_step r (stop_waited k r)"
| bs_drop: "call_at r k StopDraining \<Longrightarrow> barrier_step r (stop_drop k r)"
| bs_reset: "call_at r k StopDrained \<Longrightarrow> barrier_step r (stop_reset k r)"
| bs_check: "barrier_step r (fst (SendSignalCtx_check sig r))"
| bs_put: "call_at r k (SendChecked sig) \<Longrightarrow> length (rb_signals r) < signals_cap \<Longrightarrow>
    barrier_step r (SendSignalCtx_put k sig r)"
| bs_give_up: "call_at r k (SendChecked sig) \<Longrightarrow> barrier_step r (fst (SendSignalCtx_cancelled k r))"
| bs_receive: "rb_listeners r \<noteq> [] \<Longrightarrow> barrier_step r (listen_receive r)"
| bs_return: "i \<in> set (rb_listeners r) \<Longrightarrow> rb_parent_done r \<or> i \<in> rb_cancelled r \<Longrightarrow>
    barrier_step r (listen_return i r)"
| bs_parent: "barrier_step r (r\<lparr>rb_parent_done := True\<rparr>)"

definition barrier_init :: "ReadinessBarrier \<Rightarrow> bool" where
  "barrier_init r \<longleftrightarrow> (\<exists>d n. r = NewReadinessBarrier d n)"

definition barrier_inv :: "ReadinessBarrier \<Rightarrow> bool" where
  "barrier_inv r \<longleftrightarrow> rb_wg r = length (rb_listeners r) \<and> length (rb_signals r) \<le> signals_cap \<and>
     set (rb_signals r) \<subseteq> set (rb_sent r) \<and>
     (rb_readinessFlag r \<longrightarrow> ReadySignalToggle \<in> set (rb_sent r))"

text \<open>The steps as an executable function: \<open>None\<close> when the step is not enabled.\<close>

datatype action =
    AStart | AStop | ACheck string | ACall nat | AGiveUp nat | AReceive | AReturn nat

definition act_call :: "nat \<Rightarrow> rb_call \<Rightarrow> ReadinessBarrier \<Rightarrow> ReadinessBarrier option" where
  "act_call k c r =
     (case c of
        StartEntered \<Rightarrow> Some (start_store k r)
      | StartStored i \<Rightarrow> Some (start_spawn k i r)
      | StopEntered \<Rightarrow> Some (stop_cancel k r)
      | StopWaiting \<Rightarrow> if rb_wg r = 0 then Some (stop_waited k r) else None
      | StopDraining \<Rightarrow> Some (stop_drop k r)
      | StopDrained \<Rightarrow> Some (stop_reset k r)
      | SendChecked sig \<Rightarrow>
          if length (rb_signals r) < signals_cap then Some (SendSignalCtx_put k sig r) else None)"

fun act :: "action \<Rightarrow> ReadinessBarrier \<Rightarrow> ReadinessBarrier option" where
  "act AStart r = Some (start_enter r)"
| "act AStop r = Some (stop_enter r)"
| "act (ACheck sig) r = Some (fst (SendSignalCtx_check sig r))"
| "act (ACall k) r = (if k < length (rb_calls r) then act_call k (rb_calls r ! k) r else None)"
| "act (AGiveUp k) r =
     (if k < length (rb_calls r) \<and> (case rb_calls r ! k of SendChecked _ \<Rightarrow> True | _ \<Rightarrow> False)
      then Some (fst (SendSignalCtx_cancelled k r)) else None)"
| "act AReceive r = (if rb_listeners r = [] then None else Some (listen_receive r))"
| "act (AReturn i) r =
     (if i \<in> set (rb_listeners r) \<and> (rb_parent_done r \<or> i \<in> rb_cancelled r)
      then Some (listen_return i r) else None)"

fun acts :: "action list \<Rightarrow> ReadinessBarrier \<Rightarrow> ReadinessBarrier option" where
  "acts [] r = Some r"
| "acts (a # as) r = (case act a r of None \<Rightarrow> None | Some r' \<Rightarrow> acts as r')"

text \<open>The steps while no further call begins.\<close>

definition solo_step :: "ReadinessBarrier \<Rightarrow> ReadinessBarrier \<Rightarrow> bool" where
  "solo_step r r' \<longleftrightarrow> barrier_step r r' \<and> length (rb_calls r') \<le> length (rb_calls r)"

text \<open>A barrier no call is working on, right after a call of \<^verbatim>\<open>Stop\<close> has begun.\<close>

definition solo_stop_init :: "ReadinessBarrier \<Rightarrow> bool" where
  "solo_stop_init r \<longleftrightarrow>
     (\<exists>r0. barrier_inv r0 \<and> rb_running r0 \<and> rb_calls r0 = [] \<and> r = stop_enter r0)"

definition solo_stop_inv :: "ReadinessBarrier \<Rightarrow> bool" where
  "solo_stop_inv r \<longleftrightarrow> \<not> rb_running r \<and> rb_wg r = length (rb_listeners r) \<and>
     (rb_calls r = [] \<and> rb_listeners r = [] \<and> rb_signals r = [] \<and> \<not> rb_readinessFlag r \<or>
      rb_calls r = [StopEntered] \<or> rb_calls r = [StopWaiting] \<or>
      rb_calls r = [StopDraining] \<and> rb_listeners r = [] \<or>
      rb_calls r = [StopDrained] \<and> rb_listeners r = [] \<and> rb_signals r = [])"

text \<open>A listener whose cancel function nobody holds any more.\<close>

definition leaked :: "nat \<Rightarrow> ReadinessBarrier \<Rightarrow> bool" where
  "leaked i r \<longleftrightarrow> i \<in> set (rb_listeners r) \<and> i \<notin> rb_cancelled r \<and> rb_runCancel r \<noteq> Some i \<and>
     i < rb_fresh r"

text \<open>The flag after one signal, and after a sequence of signals.\<close>

definition flag_step :: "bool \<Rightarrow> string \<Rightarrow> bool" where
  "flag_step b sig =
     (if sig = ReadySignalToggle then True else if sig = NotReadySignalToggle then False else b)"

definition flag_after :: "bool \<Rightarrow> string list \<Rightarrow> bool" where
  "flag_after b sigs = foldl flag_step b sigs"

section \<open>Invariant\<close>

lemmas barrier_ops = start_enter_def start_store_def start_spawn_def stop_enter_def stop_cancel_def
  stop_waited_def stop_drop_def stop_reset_def SendSignalCtx_check_def SendSignalCtx_put_def
  SendSignalCtx_cancelled_def listen_receive_def listen_return_def toggle_def setReady_def
  setNotReady_def set_call_def

lemma barrier_step_inv:
  assumes "barrier_step r r'" and "barrier_inv r"
  shows "barrier_inv r'"
  using assms
  by (cases rule: barrier_step.cases)
    (auto simp: barrier_inv_def barrier_ops length_remove1 split: list.splits option.splits)

interpretation barrier: inductive_invariant barrier_init barrier_step barrier_inv
proof
  show "barrier_init r \<Longrightarrow> barrier_inv r" for r
    by (auto simp: barrier_init_def barrier_inv_def NewReadinessBarrier_def setNotReady_def)
qed (rule barrier_step_inv)

lemma toggle_flag: "toggle sig r = r\<lparr>rb_readinessFlag := flag_step (rb_readinessFlag r) sig\<rparr>"
  by (cases r) (simp add: toggle_def flag_step_def setReady_def setNotReady_def)

lemma listen_receive_all:
  "(listen_receive ^^ length (rb_signals r)) r =
     r\<lparr>rb_signals := [], rb_readinessFlag := flag_after (rb_readinessFlag r) (rb_signals r)\<rparr>"
proof (induction "rb_signals r" arbitrary: r)
  case (Cons sig sigs)
  let ?r = "r\<lparr>rb_signals := sigs, rb_readinessFlag := flag_step (rb_readinessFlag r) sig\<rparr>"
  have r': "listen_receive r = ?r"
    using Cons.hyps(2) [symmetric] by (simp add: listen_receive_def toggle_flag)
  with Cons.hyps(1) [of ?r] Cons.hyps(2) [symmetric] show ?case
    by (simp add: funpow_swap1 flag_after_def)
qed (simp add: flag_after_def)

lemma act_step: "act a r = Some r' \<Longrightarrow> barrier_step r r'"
  by (cases a)
    (auto simp: act_call_def call_at_def split: if_splits rb_call.splits intro: barrier_step.intros)

lemma acts_steps: "acts as r = Some r' \<Longrightarrow> barrier_step\<^sup>*\<^sup>* r r'"
  by (induction as arbitrary: r)
    (auto split: option.splits dest: act_step intro: converse_rtranclp_into_rtranclp)

lemma acts_reachable: "acts as (NewReadinessBarrier d n) = Some r \<Longrightarrow> reachable barrier_init barrier_step r"
  by (rule reachable_steps [OF reach_init acts_steps]) (auto simp: barrier_init_def)

lemma solo_stop_step:
  assumes "solo_step r r'" and "solo_stop_inv r"
  shows "solo_stop_inv r'"
proof -
  from assms(1) have "barrier_step r r'" and le: "length (rb_calls r') \<le> length (rb_calls r)"
    by (simp_all add: solo_step_def)
  then show ?thesis using assms(2)
    by (cases rule: barrier_step.cases)
      (auto simp: solo_stop_inv_def barrier_ops call_at_def length_remove1 less_Suc_eq
        split: list.splits option.splits if_splits)
qed

interpretation solo_stop: inductive_invariant solo_stop_init solo_step solo_stop_inv
proof
  show "solo_stop_init r \<Longrightarrow> solo_stop_inv r" for r
    by (auto simp: solo_stop_init_def solo_stop_inv_def barrier_inv_def stop_enter_def)
qed (rule solo_stop_step)

lemma parent_done_step: "barrier_step r r' \<Longrightarrow> rb_parent_done r \<Longrightarrow> rb_parent_done r'"
  by (auto elim!: barrier_step.cases simp: barrier_ops split: list.splits option.splits if_splits)

lemma leaked_return: "leaked i r \<Longrightarrow> j \<in> rb_cancelled r \<Longrightarrow> leaked i (listen_return j r)"
  by (cases "i = j") (auto simp: leaked_def listen_return_def)

lemma leaked_step:
  assumes "barrier_step r r'" and "leaked i r" and "\<not> rb_parent_done r"
  shows "leaked i r'"
  using assms
proof (cases rule: barrier_step.cases)
  case (bs_return j)
  with assms show ?thesis by (auto intro: leaked_return)
qed (auto simp: leaked_def barrier_ops split: list.splits option.splits if_splits)

lemma leaked_steps:
  assumes "barrier_step\<^sup>*\<^sup>* r r'" and "leaked i r" and "\<not> rb_parent_done r'"
  shows "leaked i r'"
  using assms by (induction rule: rtranclp_induct) (blast dest: leaked_step parent_done_step)+

section \<open>Properties\<close>



text \<open>
  The listener handles the signals in the order they were accepted: once it has received what waits
  in the channel, the flag is that of the last ready or not-ready signal; other strings are ignored.
\<close>

theorem listener_follows_last_signal:
  "IsReady ((listen_receive ^^ length (rb_signals r)) r) = flag_after (IsReady r) (rb_signals r)"
  by (simp add: listen_receive_all IsReady_def)

text \<open>
  C16. A call of \<^verbatim>\<open>Stop\<close> that no other call overlaps does its work: when it has returned, the barrier is
  stopped and not ready, no signal waits, no listener is left, and every signal is refused.
\<close>

theorem Stop_alone_stops:
  assumes "reachable solo_stop_init solo_step r" and "rb_calls r = []"
  shows "\<not> rb_running r \<and> \<not> IsReady r \<and> rb_signals r = [] \<and> rb_listeners r = [] \<and>
    snd (SendSignalCtx_check sig r) \<noteq> None"
  using solo_stop.invariant [OF assms(1)] assms(2)
  by (auto simp: solo_stop_inv_def IsReady_def SendSignalCtx_check_def)

theorem Stop_alone_stops_witness:
  "\<exists>r. acts [AStart, ACall 0, ACall 0, ACheck ReadySignalToggle, ACall 0, AStop, ACall 0, AReturn 0,
          ACall 0, ACall 0, ACall 0, ACall 0] (NewReadinessBarrier False ''db'') = Some r \<and>
     rb_sent r = [ReadySignalToggle] \<and> rb_signals r = [] \<and> \<not> IsReady r"
proof -
  let ?start = "[AStart, ACall 0, ACall 0, ACheck ReadySignalToggle, ACall 0]"
  let ?r0 = "the (acts ?start (NewReadinessBarrier False ''db''))"
  let ?r1 = "stop_enter ?r0"
  let ?r2 = "stop_cancel 0 ?r1"
  let ?r3 = "listen_return 0 ?r2"
  let ?r4 = "stop_waited 0 ?r3"
  let ?r5 = "stop_drop 0 ?r4"
  let ?r6 = "stop_drop 0 ?r5"
  let ?r7 = "stop_reset 0 ?r6"
  note ev = NewReadinessBarrier_def barrier_ops act_call_def signals_cap_def call_at_def
  have s0: "acts ?start (NewReadinessBarrier False ''db'') = Some ?r0" by (simp add: ev)
  have c: "rb_calls ?r1 = [StopEntered]" "rb_calls ?r2 = [StopWaiting]" "rb_calls ?r3 = [StopWaiting]"
    "rb_calls ?r4 = [StopDraining]" "rb_calls ?r5 = [StopDraining]" "rb_calls ?r6 = [StopDrained]"
    "rb_calls ?r7 = []" "0 \<in> set (rb_listeners ?r2)" "0 \<in> rb_cancelled ?r2" "rb_wg ?r3 = 0"
    by (simp_all add: ev)
  have "reachable solo_stop_init solo_step ?r1"
    by (rule reach_init, unfold solo_stop_init_def, rule exI [of _ ?r0])
      (simp add: ev barrier_inv_def)
  moreover have "solo_step ?r1 ?r2" "solo_step ?r3 ?r4" "solo_step ?r4 ?r5" "solo_step ?r5 ?r6" "solo_step ?r6 ?r7"
    using c by (auto simp: solo_step_def call_at_def
        intro: bs_cancel bs_waited bs_drop bs_reset)
  moreover have "solo_step ?r2 ?r3" using c by (auto simp: solo_step_def intro: bs_return)
  ultimately have "reachable solo_stop_init solo_step ?r7" by (meson reach_step)
  from Stop_alone_stops [OF this c(7)] have "\<not> IsReady ?r7" "rb_signals ?r7 = []" by blast+
  then show ?thesis by (intro exI [of _ ?r7]) (simp add: ev IsReady_def)
qed

text \<open>
  A signal may survive \<^verbatim>\<open>Stop\<close>: \<^verbatim>\<open>SendSignalCtx\<close> checks \<^verbatim>\<open>running\<close> before it sends, so a call that passed
  the check can put its signal into the channel after \<^verbatim>\<open>Stop\<close> has emptied it. The next \<^verbatim>\<open>Start\<close> then makes
  the barrier ready although no signal was sent since.
\<close>

theorem stale_signal_after_Stop:
  "\<exists>r r'. reachable barrier_init barrier_step r \<and> \<not> rb_running r \<and> rb_calls r = [] \<and>
     \<not> IsReady r \<and> acts [AStart, ACall 0, ACall 0, AReceive] r = Some r' \<and> IsReady r' \<and>
     rb_sent r' = rb_sent r"
proof -
  let ?as = "[AStart, ACall 0, ACall 0, ACheck ReadySignalToggle, AStop, ACall 1, AReturn 0, ACall 1,
    ACall 1, ACall 1, ACall 0]"
  let ?r = "the (acts ?as (NewReadinessBarrier False ''db''))"
  let ?r' = "the (acts [AStart, ACall 0, ACall 0, AReceive] ?r)"
  note ev = NewReadinessBarrier_def barrier_ops act_call_def signals_cap_def IsReady_def
  have "acts ?as (NewReadinessBarrier False ''db'') = Some ?r" by (simp add: ev)
  then have "reachable barrier_init barrier_step ?r" by (rule acts_reachable)
  moreover have "\<not> rb_running ?r" "rb_calls ?r = []" "\<not> IsReady ?r" by (simp_all add: ev)
  moreover have "acts [AStart, ACall 0, ACall 0, AReceive] ?r = Some ?r'" "IsReady ?r'" "rb_sent ?r' = rb_sent ?r"
    by (simp_all add: ev)
  ultimately show ?thesis by blast
qed

text \<open>
  A \<^verbatim>\<open>Stop\<close> that overtakes a \<^verbatim>\<open>Start\<close> leaks the listener: once a listener is alive whose cancel function
  is stored nowhere, the wait group stays above zero as long as the parent context is not done, so that
  no later \<^verbatim>\<open>Stop\<close> of a running barrier returns.
\<close>

theorem leaked_listener_blocks_Stop:
  assumes "reachable barrier_init barrier_step r" and "leaked i r" and "barrier_step\<^sup>*\<^sup>* r r'"
    and "\<not> rb_parent_done r'"
  shows "rb_wg r' \<noteq> 0"
  using leaked_steps [OF assms(3,2,4)] barrier.invariant [OF reachable_steps [OF assms(1,3)]]
  by (auto simp: leaked_def barrier_inv_def)

theorem leaked_listener_blocks_Stop_witness:
  "\<exists>r. acts [AStart, AStop, ACall 1, ACall 1, ACall 1, ACall 1, ACall 0, ACall 0, AStart, ACall 0, ACall 0,
           AStop, ACall 0] (NewReadinessBarrier False ''db'') = Some r \<and> rb_calls r = [StopWaiting] \<and> rb_wg r \<noteq> 0"
proof -
  let ?as = "[AStart, AStop, ACall 1, ACall 1, ACall 1, ACall 1, ACall 0, ACall 0, AStart, ACall 0, ACall 0,
           AStop, ACall 0]"
  let ?r = "the (acts ?as (NewReadinessBarrier False ''db''))"
  note ev = NewReadinessBarrier_def barrier_ops act_call_def signals_cap_def
  have a: "acts ?as (NewReadinessBarrier False ''db'') = Some ?r" by (simp add: ev)
  have l: "leaked 0 ?r" by (simp add: ev leaked_def)
  have "rb_calls ?r = [StopWaiting]" and d: "\<not> rb_parent_done ?r" by (simp_all add: ev)
  with a leaked_listener_blocks_Stop [OF acts_reachable [OF a] l rtranclp.rtrancl_refl d] show ?thesis by blast
qed

end
