(* ===== verification/Scheduler_Stop.thy ===== *)
theory Scheduler_Stop
  imports Scheduler
begin

text \<open>
  Termination of \<^verbatim>\<open>JobScheduler.Stop\<close>. A scheduler with one client (the supervisor of a leader, say) sees
  its calls one after the other, while goroutines, tickers and time go on between them and during the
  wait of \<^verbatim>\<open>Stop\<close>. For such a scheduler \<^verbatim>\<open>Stop\<close> always gets to its wait, and the goroutines it waits for
  can make only finitely many steps: the tickers are stopped and the contexts cancelled, so every
  goroutine is on its way out. When none of them can move any more, the wait is over.
\<close>

section \<open>One client\<close>

inductive seq_step :: "JobScheduler \<Rightarrow> JobScheduler \<Rightarrow> bool" where
  sq_work: "work_step s s' \<Longrightarrow> seq_step s s'"
| sq_add: "seq_step s (fst (Add cfg s))"
| sq_start: "Start ctx s = (s', Returns) \<Longrightarrow> seq_step s s'"
| sq_stop: "Stop_call s s' \<Longrightarrow> seq_step s s'"

text \<open>A goroutine that is under way finds its job with a context and a ticker, those it selects on.\<close>

definition thread_ok :: "JobScheduler \<Rightarrow> string \<times> place \<Rightarrow> bool" where
  "thread_ok s th \<longleftrightarrow> snd th = Ended \<or> snd th = Skipped \<or>
     (\<exists>j c t. map_of (js_goroutines s) (fst th) = Some j \<and> \<not> j_rmu j \<and> j_ctx j = Some c \<and>
        j_ticker j = Some t \<and> (\<forall>c' t'. snd th = Selecting c' t' \<longrightarrow> c' = c \<and> t' = t))"

definition base_inv :: "JobScheduler \<Rightarrow> bool" where
  "base_inv s \<longleftrightarrow> sched_inv s \<and> \<not> js_mu s \<and> (\<forall>(n, j) \<in> set (js_goroutines s). \<not> j_rmu j) \<and>
     (\<forall>th \<in> set (js_threads s). thread_ok s th)"

definition ready :: "job \<Rightarrow> bool" where
  "ready j \<longleftrightarrow> j_ctx j \<noteq> None \<and> j_ticker j \<noteq> None"

definition seq_inv :: "JobScheduler \<Rightarrow> bool" where
  "seq_inv s \<longleftrightarrow> base_inv s \<and>
     (if js_started s then \<forall>(n, j) \<in> set (js_goroutines s). ready j else all_ended s)"

text \<open>After the signal of \<^verbatim>\<open>Stop\<close>: every context is cancelled, every ticker stopped and drained.\<close>

definition stopping :: "JobScheduler \<Rightarrow> bool" where
  "stopping s \<longleftrightarrow> base_inv s \<and> \<not> js_started s \<and>
     (\<forall>(n, j) \<in> set (js_goroutines s). \<exists>i p t. j_ctx j = Some (i, p) \<and> i \<in> env_cancelled (js_env s) \<and>
        j_ticker j = Some t \<and> t \<notin> js_ticking s \<and> t \<notin> js_ticks s)"

text \<open>The steps a goroutine still has to make, at most.\<close>

fun place_work :: "place \<Rightarrow> nat" where
  "place_work (Spawned c) = 4"
| "place_work Looping = 3"
| "place_work (Selecting c t) = 2"
| "place_work Acquiring = 5"
| "place_work Holding = 4"
| "place_work (Executing c) = 4"
| "place_work Ended = 0"
| "place_work Skipped = 0"

definition stop_work :: "JobScheduler \<Rightarrow> nat" where
  "stop_work s = sum_list (map (place_work \<circ> snd) (js_threads s))"

text \<open>\<open>runs n\<close>: work goes on, and \<open>n\<close> of the steps are steps of goroutines.\<close>

inductive runs :: "nat \<Rightarrow> JobScheduler \<Rightarrow> JobScheduler \<Rightarrow> bool" where
  runs_refl: "runs 0 s s"
| runs_thread: "runs n s s' \<Longrightarrow> thread_step s' s'' \<Longrightarrow> runs (Suc n) s s''"
| runs_other: "runs n s s' \<Longrightarrow> work_step s' s'' \<Longrightarrow> \<not> thread_step s' s'' \<Longrightarrow> runs n s s''"

text \<open>Every step of a goroutine moves one goroutine from a place that is not final.\<close>

definition moves :: "JobScheduler \<Rightarrow> nat \<Rightarrow> string \<Rightarrow> place \<Rightarrow> place \<Rightarrow> JobScheduler \<Rightarrow> bool" where
  "moves s k n q p s' \<longleftrightarrow> thread_at s k n q \<and> q \<noteq> Ended \<and> q \<noteq> Skipped \<and>
     js_threads s' = js_threads (set_thread k p s) \<and>
     (\<forall>c t. p = Selecting c t \<longrightarrow>
        (\<exists>j. map_of (js_goroutines s) n = Some j \<and> \<not> j_rmu j \<and> j_ctx j = Some c \<and> j_ticker j = Some t))"

text \<open>The loop of \<^verbatim>\<open>Stop\<close> over jobs that have a context: what it cancels and what it stops.\<close>

definition cancels_of :: "(string \<times> job) list \<Rightarrow> nat set" where
  "cancels_of jobs = (\<Union>nj \<in> set jobs. fst ` set_option (j_ctx (snd nj)))"

definition tickers_of :: "(string \<times> job) list \<Rightarrow> nat set" where
  "tickers_of jobs = (\<Union>nj \<in> set jobs. set_option (j_ticker (snd nj)))"

definition demo_running :: JobScheduler where
  "demo_running = fst (Start (WithCancel 0 Background) (demo_sched False))"

definition demo_stopped :: JobScheduler where
  "demo_stopped = fst (Stop_signal demo_running)"

section \<open>Preservation\<close>

lemma map_of_set_job:
  "map_of (js_goroutines (set_job n f s)) m =
     map_option (if m = n then f else id) (map_of (js_goroutines s) m)"
proof -
  have "map_of (map (\<lambda>(m, j). (m, if m = n then f j else j)) xs) m =
      map_option (if m = n then f else id) (map_of xs m)" for xs :: "(string \<times> job) list"
    by (induction xs) auto
  then show ?thesis by (simp add: set_job_def)
qed

text \<open>Whether a goroutine is all right depends on the context, the ticker and the mutex of the jobs only.\<close>

lemma thread_ok_mono:
  assumes "thread_ok s th"
    and "\<And>n j. map_of (js_goroutines s) n = Some j \<Longrightarrow>
      \<exists>j'. map_of (js_goroutines s') n = Some j' \<and> j_ctx j' = j_ctx j \<and> j_ticker j' = j_ticker j \<and> j_rmu j' = j_rmu j"
  shows "thread_ok s' th"
  using assms unfolding thread_ok_def by metis

lemma thread_step_jobs:
  assumes "thread_step s s'" and "map_of (js_goroutines s) n = Some j"
  shows "\<exists>j'. map_of (js_goroutines s') n = Some j' \<and> j_ctx j' = j_ctx j \<and> j_ticker j' = j_ticker j \<and> j_rmu j' = j_rmu j"
  using assms by (cases rule: thread_step.cases) (auto simp: map_of_set_job)

lemma set_thread_ok:
  assumes "\<forall>th \<in> set (js_threads s). thread_ok s th" and "thread_ok s (n, p)" and "thread_at s k n q"
    and "th \<in> set (js_threads (set_thread k p s))"
  shows "thread_ok s th"
proof -
  have "th \<in> insert (n, p) (set (js_threads s))"
    using assms(3,4) by (auto simp: set_thread_def thread_at_def dest!: subsetD [OF set_update_subset_insert])
  with assms(1,2) show ?thesis by auto
qed

lemma thread_ok_at: "\<forall>th \<in> set (js_threads s). thread_ok s th \<Longrightarrow> thread_at s k n p \<Longrightarrow> thread_ok s (n, p)"
  by (auto simp: thread_at_def dest!: nth_mem)

lemma thread_step_moves: "thread_step s s' \<Longrightarrow> \<exists>k n q p. moves s k n q p s'"
  by (induction rule: thread_step.induct) (rule exI, rule exI, rule exI, rule exI, fastforce simp: moves_def)+

lemma thread_step_threads_ok:
  assumes "thread_step s s'" and ok: "\<forall>th \<in> set (js_threads s). thread_ok s th"
    and "th \<in> set (js_threads s')"
  shows "thread_ok s th"
proof -
  from thread_step_moves [OF assms(1)] obtain k n q p where m: "moves s k n q p s'" by blast
  then have "thread_ok s (n, q)" using thread_ok_at [OF ok] by (auto simp: moves_def)
  with m have "thread_ok s (n, p)"
    by (cases p) (auto simp: moves_def thread_ok_def)
  from set_thread_ok [OF ok this] m assms(3) show ?thesis by (metis moves_def)
qed

lemma jobs_unlocked_step:
  assumes "thread_step s s'" and "\<forall>(n, j) \<in> set (js_goroutines s). P (j_ctx j) (j_ticker j) (j_rmu j)"
  shows "\<forall>(n, j) \<in> set (js_goroutines s'). P (j_ctx j) (j_ticker j) (j_rmu j)"
  using assms by (cases rule: thread_step.cases) (auto simp: set_job_def)

lemma work_step_base:
  assumes "work_step s s'" and "base_inv s"
  shows "base_inv s'"
  using assms(1)
proof (cases rule: work_step.cases)
  case ws_thread
  have "thread_ok s' th" if "th \<in> set (js_threads s')" for th
    using thread_step_threads_ok [OF ws_thread _ that] assms(2) thread_step_jobs [OF ws_thread]
    by (auto simp: base_inv_def intro: thread_ok_mono)
  with assms ws_thread show ?thesis
    using jobs_unlocked_step [OF ws_thread, of "\<lambda>_ _ b. \<not> b"] work_step_started [OF assms(1)]
    by (auto simp: base_inv_def intro: thread_step_inv)
qed (use assms(2) in \<open>auto simp: base_inv_def thread_ok_def\<close>)

lemma work_step_jobs:
  assumes "work_step s s'" and "\<forall>(n, j) \<in> set (js_goroutines s). P (j_ctx j) (j_ticker j) (j_rmu j)"
  shows "\<forall>(n, j) \<in> set (js_goroutines s'). P (j_ctx j) (j_ticker j) (j_rmu j)"
  using assms by (cases rule: work_step.cases) (auto simp: jobs_unlocked_step)

section \<open>Stop\<close>

lemma stop_ticker_set:
  "stop_ticker t s = s\<lparr>js_ticking := js_ticking s - set_option t, js_ticks := js_ticks s - set_option t\<rparr>"
  by (cases t) (simp_all add: stop_ticker_def)

lemma cancel_jobs_ready:
  assumes "\<forall>(n, j) \<in> set jobs. j_ctx j \<noteq> None \<and> \<not> j_rmu j"
  shows "cancel_jobs jobs s =
    (s\<lparr>js_env := (js_env s)\<lparr>env_cancelled := env_cancelled (js_env s) \<union> cancels_of jobs\<rparr>,
       js_ticking := js_ticking s - tickers_of jobs, js_ticks := js_ticks s - tickers_of jobs\<rparr>, Returns)"
  using assms
proof (induction jobs arbitrary: s)
  case (Cons nj jobs)
  obtain n j i p where j: "nj = (n, j)" "j_ctx j = Some (i, p)" "\<not> j_rmu j"
    using Cons.prems by (cases nj) auto
  let ?s = "stop_ticker (j_ticker j) (s\<lparr>js_env := (js_env s)\<lparr>env_cancelled := insert i (env_cancelled (js_env s))\<rparr>\<rparr>)"
  have "cancel_job nj s = (?s, Returns)" using j by (simp add: cancel_job_def)
  moreover have "\<forall>(n, j) \<in> set jobs. j_ctx j \<noteq> None \<and> \<not> j_rmu j" using Cons.prems by auto
  moreover have "A - B - C = A - (B \<union> C)" for A B C :: "nat set" by auto
  ultimately show ?case
    using Cons.IH [of ?s] j by (simp add: stop_ticker_set cancels_of_def tickers_of_def)
qed (simp add: cancels_of_def tickers_of_def)

lemma base_inv_fields [simp]:
  "base_inv (s\<lparr>js_env := e\<rparr>) = base_inv s" "base_inv (s\<lparr>js_started := b\<rparr>) = base_inv s"
  "base_inv (s\<lparr>js_ticking := ts\<rparr>) = base_inv s" "base_inv (s\<lparr>js_ticks := ts\<rparr>) = base_inv s"
  by (simp_all add: base_inv_def thread_ok_def)

lemma Stop_signal_stopping:
  assumes "seq_inv s" and "js_started s"
  shows "\<exists>s1. Stop_signal s = (s1, Returns) \<and> stopping s1 \<and> js_threads s1 = js_threads s"
proof -
  have jobs: "\<forall>(n, j) \<in> set (js_goroutines s). j_ctx j \<noteq> None \<and> \<not> j_rmu j" "\<not> js_mu s"
    and tick: "\<forall>(n, j) \<in> set (js_goroutines s). j_ticker j \<noteq> None"
    using assms by (auto simp: seq_inv_def base_inv_def ready_def)
  let ?s = "fst (cancel_jobs (js_goroutines s) (s\<lparr>js_started := False\<rparr>))"
  note c = cancel_jobs_ready [OF jobs(1), of "s\<lparr>js_started := False\<rparr>"]
  have "\<exists>i p t. j_ctx j = Some (i, p) \<and> i \<in> cancels_of (js_goroutines s) \<and> j_ticker j = Some t \<and>
      t \<in> tickers_of (js_goroutines s)" if "(n, j) \<in> set (js_goroutines s)" for n j
    using that jobs(1) tick by (force simp: cancels_of_def tickers_of_def)
  then have "stopping ?s"
    using assms(1) by (fastforce simp: c stopping_def seq_inv_def)
  moreover have "Stop_signal s = (?s, Returns)" "js_threads ?s = js_threads s"
    using assms(2) jobs(2) by (simp_all add: Stop_signal_def c)
  ultimately show ?thesis by blast
qed

lemma stopping_step:
  assumes "work_step s s'" and "stopping s"
  shows "stopping s'"
proof -
  have "env_cancelled (js_env s) \<subseteq> env_cancelled (js_env s')" "js_ticking s' = js_ticking s"
    "js_ticks s' \<subseteq> js_ticks s \<union> js_ticking s"
    using assms(1) by (auto elim!: work_step.cases thread_step.cases)
  moreover have "\<forall>(n, j) \<in> set (js_goroutines s'). \<exists>i p t. j_ctx j = Some (i, p) \<and> i \<in> env_cancelled (js_env s) \<and>
      j_ticker j = Some t \<and> t \<notin> js_ticking s \<and> t \<notin> js_ticks s"
    using work_step_jobs [OF assms(1), of "\<lambda>c t _. \<exists>i p t'. c = Some (i, p) \<and> i \<in> env_cancelled (js_env s) \<and>
      t = Some t' \<and> t' \<notin> js_ticking s \<and> t' \<notin> js_ticks s"] assms(2) by (auto simp: stopping_def)
  ultimately show ?thesis
    using assms(2) work_step_base [OF assms(1)] work_step_started [OF assms(1)]
    unfolding stopping_def by fastforce
qed

lemma stopping_job_done:
  assumes "stopping s" and "map_of (js_goroutines s) n = Some j"
  shows "job_done s n \<and> (\<exists>i p. j_ctx j = Some (i, p) \<and> i \<in> env_cancelled (js_env s))"
  using assms map_of_SomeD [OF assms(2)] by (fastforce simp: stopping_def job_done_def job_ctx_def)

lemma stopping_thread:
  assumes "stopping s" and "thread_at s k n q" and "q \<noteq> Ended" and "q \<noteq> Skipped"
  obtains j i p t where "map_of (js_goroutines s) n = Some j" "\<not> j_rmu j" "j_ctx j = Some (i, p)"
    "j_ticker j = Some t" "i \<in> env_cancelled (js_env s)" "t \<notin> js_ticks s"
    "\<forall>c' t'. q = Selecting c' t' \<longrightarrow> c' = (i, p) \<and> t' = t"
proof -
  have "thread_ok s (n, q)" using assms(1,2) thread_ok_at by (auto simp: stopping_def base_inv_def)
  then obtain j c t where j: "map_of (js_goroutines s) n = Some j" "\<not> j_rmu j" "j_ctx j = Some c"
    "j_ticker j = Some t" "\<forall>c' t'. q = Selecting c' t' \<longrightarrow> c' = c \<and> t' = t"
    using assms(3,4) by (auto simp: thread_ok_def)
  moreover obtain i p where "c = (i, p)" "i \<in> env_cancelled (js_env s)" "t \<notin> js_ticks s"
    using assms(1) map_of_SomeD [OF j(1)] j(3,4) by (fastforce simp: stopping_def)
  ultimately show thesis using that by blast
qed

lemma stop_work_set:
  assumes "thread_at s k n q"
  shows "stop_work (set_thread k p s) + place_work q = stop_work s + place_work p"
proof -
  have k: "k < length (js_threads s)" "js_threads s ! k = (n, q)" using assms by (auto simp: thread_at_def)
  have "map (place_work \<circ> snd) (js_threads (set_thread k p s)) =
      (map (place_work \<circ> snd) (js_threads s))[k := place_work p]"
    using k by (simp add: set_thread_def map_update)
  then have "stop_work (set_thread k p s) = sum_list ((map (place_work \<circ> snd) (js_threads s))[k := place_work p])"
    by (simp add: stop_work_def)
  moreover have "place_work q \<le> stop_work s"
    using member_le_sum_list [of "place_work q" "map (place_work \<circ> snd) (js_threads s)"] k nth_mem [OF k(1)]
    by (force simp: stop_work_def)
  ultimately show ?thesis using k by (simp add: sum_list_update stop_work_def)
qed

lemma stop_work_threads: "js_threads s' = js_threads s \<Longrightarrow> stop_work s' = stop_work s"
  by (simp add: stop_work_def)

lemma stop_work_step:
  assumes "thread_step s s'" and "stopping s"
  shows "stop_work s' < stop_work s"
proof -
  have less: "stop_work s' < stop_work s"
    if "thread_at s k n q" "js_threads s' = js_threads (set_thread k p s)" "place_work p < place_work q" for k n q p
    using stop_work_set [OF that(1), of p] stop_work_threads [OF that(2)] that(3) by simp
  from assms(1) show ?thesis
  proof (cases rule: thread_step.cases)
    case (th_tick k n c t)
    with stopping_thread [OF assms(2) th_tick(2)] show ?thesis by blast
  next
    case (th_call k n j c)
    with stopping_job_done [OF assms(2)] show ?thesis by blast
  qed (erule less, simp, simp)+
qed

lemma runs_stopping:
  assumes "runs n s s'" and "stopping s"
  shows "stopping s' \<and> n + stop_work s' \<le> stop_work s"
  using assms
proof (induction rule: runs.induct)
  case (runs_thread n s s' s'')
  then have "stopping s'" by simp
  with stop_work_step [OF runs_thread.hyps(2)] stopping_step [OF ws_thread [OF runs_thread.hyps(2)]] runs_thread
  show ?case by simp
next
  case (runs_other n s s' s'')
  then have "js_threads s'' = js_threads s'" by (auto elim!: work_step.cases)
  from runs_other stop_work_threads [OF this] stopping_step [OF runs_other.hyps(2)] show ?case by simp
qed simp

text \<open>A goroutine that is neither returned nor skipped can move while \<^verbatim>\<open>Stop\<close> waits.\<close>

lemma stopping_progress:
  assumes "stopping s" and "thread_at s k n q" and "q \<noteq> Ended" and "q \<noteq> Skipped"
  shows "\<exists>s'. thread_step s s'"
proof -
  obtain j i p t where j: "map_of (js_goroutines s) n = Some j" "\<not> j_rmu j" "j_ctx j = Some (i, p)"
    "j_ticker j = Some t" "i \<in> env_cancelled (js_env s)" "t \<notin> js_ticks s"
    "\<forall>c' t'. q = Selecting c' t' \<longrightarrow> c' = (i, p) \<and> t' = t"
    by (rule stopping_thread [OF assms])
  have d: "job_done s n" using stopping_job_done [OF assms(1) j(1)] by simp
  show ?thesis
  proof (cases q)
    case (Spawned c)
    then show ?thesis using assms(2) th_skip th_enter by (cases "ctx_done (js_env s) c") blast+
  next
    case Looping
    then show ?thesis using assms(2) j(1-4) th_read by blast
  next
    case (Selecting c t')
    then have "thread_at s k n (Selecting (i, p) t)" using assms(2) j(7) by auto
    then show ?thesis using j(5) th_return by fastforce
  next
    case Acquiring
    then show ?thesis using assms(2) d th_give_up by blast
  next
    case Holding
    then show ?thesis using assms(2) d th_recheck by blast
  next
    case (Executing c)
    then show ?thesis using assms(2) th_finish by blast
  qed (use assms(3,4) in auto)
qed

lemma stopping_waited:
  assumes "stopping s" and "\<not> (\<exists>s'. thread_step s s')" and "\<forall>th \<in> set (js_threads s). snd th \<noteq> Skipped"
  shows "Stop_waited s"
proof -
  have "\<not> waited_for n th" if th: "th \<in> set (js_threads s)" for n th
  proof -
    obtain k where "k < length (js_threads s)" "js_threads s ! k = th" using th by (metis in_set_conv_nth)
    then have "thread_at s k (fst th) (snd th)" by (simp add: thread_at_def)
    from stopping_progress [OF assms(1) this] assms(2,3) th show ?thesis by (auto simp only: waited_for_def)
  qed
  then show ?thesis
    using assms(1) by (auto simp: stopping_def base_inv_def sched_inv_def Stop_waited_def thread_count_def filter_empty_conv)
qed

section \<open>The invariant of a scheduler with one client\<close>

lemma stopping_work_steps: "work_step\<^sup>*\<^sup>* s s' \<Longrightarrow> stopping s \<Longrightarrow> stopping s'"
  by (induction rule: rtranclp_induct) (auto intro: stopping_step)

lemma seq_inv_Stop_call:
  assumes "seq_inv s" and "Stop_call s s'"
  shows "seq_inv s'"
proof (cases "js_started s")
  case True
  from Stop_signal_stopping [OF assms(1) True] obtain s1 where "Stop_signal s = (s1, Returns)" "stopping s1" by blast
  with assms(2) True have "stopping s'" "Stop_waited s'" by (auto simp: Stop_call_def intro: stopping_work_steps)
  then show ?thesis
    using Stop_waited_ended [of s'] by (auto simp: stopping_def seq_inv_def base_inv_def all_ended_def)
next
  case False
  with assms show ?thesis by (auto simp: Stop_call_def Stop_signal_def split: if_splits)
qed

lemma seq_inv_Add:
  assumes "seq_inv s"
  shows "seq_inv (fst (Add cfg s))"
proof (cases "js_started s")
  case True
  with assms show ?thesis by (simp add: Add_def)
next
  case False
  with assms have "all_ended s" by (simp add: seq_inv_def)
  moreover have "js_threads (fst (Add cfg s)) = js_threads s" "js_started (fst (Add cfg s)) = js_started s"
    "js_mu (fst (Add cfg s)) = js_mu s"
    "\<forall>(n, j) \<in> set (js_goroutines (fst (Add cfg s))). j_rmu j \<longrightarrow> (n, j) \<in> set (js_goroutines s)"
    by (auto simp: Add_def)
  ultimately show ?thesis
    using assms sched_inv_Add [of s cfg] False
    by (fastforce simp: seq_inv_def base_inv_def all_ended_def thread_ok_def)
qed

text \<open>The loop of \<^verbatim>\<open>Start\<close>: \<open>ns\<close> are the jobs still to start, which have no goroutine under way.\<close>

lemma start_job_ready:
  assumes "start_job ctx n s = (s', Returns)" and "base_inv s" and "\<forall>th \<in> set (js_threads s). fst th = n \<longrightarrow> snd th = Ended"
  shows "base_inv s' \<and> (\<forall>m j. map_of (js_goroutines s') m = Some j \<longrightarrow>
      ready j \<or> m \<noteq> n \<and> map_of (js_goroutines s) m = Some j)"
proof (cases "map_of (js_goroutines s) n")
  case None
  with assms show ?thesis by (auto simp: start_job_def)
next
  case (Some j)
  let ?f = "\<lambda>j. j\<lparr>j_ctx := Some (js_fresh s, ctx), j_ticker := Some (js_fresh s), j_wg := j_wg j + 1\<rparr>"
  have s': "js_goroutines s' = js_goroutines (set_job n ?f s)" "js_threads s' = js_threads s @ [(n, Spawned ctx)]"
    "js_mu s' = js_mu s" "\<not> j_rmu j"
    using assms(1) Some by (auto simp: start_job_def set_job_def split: if_splits)
  have "thread_ok s' th" if "th \<in> set (js_threads s')" for th
  proof (cases "fst th = n")
    case True
    with that assms(3) s'(2) have "snd th = Ended \<or> snd th = Spawned ctx"
      by (metis Un_iff empty_iff empty_set insert_iff list.set(2) set_append snd_conv)
    with True Some s'(1,4) show ?thesis by (auto simp: thread_ok_def map_of_set_job)
  next
    case False
    with that assms(2) s'(2) have "thread_ok s th" by (auto simp: base_inv_def)
    with False s'(1) show ?thesis by (auto simp: thread_ok_def map_of_set_job)
  qed
  moreover have "\<forall>(m, j) \<in> set (js_goroutines s'). \<not> j_rmu j"
    using assms(2) by (auto simp: s'(1) set_job_def base_inv_def split: if_splits)
  ultimately have "base_inv s'"
    using assms(2) sched_inv_start_job [OF _ assms(1)] s'(3) by (auto simp: base_inv_def)
  then show ?thesis by (auto simp: s'(1) map_of_set_job ready_def split: if_splits)
qed

lemma start_job_others: "start_job ctx n s = (s', r) \<Longrightarrow> js_threads s' = js_threads s \<or> js_threads s' = js_threads s @ [(n, Spawned ctx)]"
  and start_job_names: "start_job ctx n s = (s', r) \<Longrightarrow> map fst (js_goroutines s') = map fst (js_goroutines s)"
  by (auto simp: start_job_def split: option.splits if_splits simp del: map_map)

lemma start_jobs_ready:
  assumes "start_jobs ctx ns s = (s', Returns)" and "base_inv s" and "distinct ns"
    and "\<forall>th \<in> set (js_threads s). fst th \<in> set ns \<longrightarrow> snd th = Ended"
    and "\<forall>m j. map_of (js_goroutines s) m = Some j \<longrightarrow> m \<in> set ns \<or> ready j"
  shows "base_inv s' \<and> (\<forall>m j. map_of (js_goroutines s') m = Some j \<longrightarrow> ready j)"
  using assms
proof (induction ns arbitrary: s)
  case (Cons n ns)
  then obtain s1 where s1: "start_job ctx n s = (s1, Returns)" "start_jobs ctx ns s1 = (s', Returns)"
    by (auto split: prod.splits api_end.splits)
  have "base_inv s1" and r: "\<forall>m j. map_of (js_goroutines s1) m = Some j \<longrightarrow>
      ready j \<or> m \<noteq> n \<and> map_of (js_goroutines s) m = Some j"
    using start_job_ready [OF s1(1) Cons.prems(2)] Cons.prems(4) by auto
  moreover have "\<forall>th \<in> set (js_threads s1). fst th \<in> set ns \<longrightarrow> snd th = Ended"
    using start_job_others [OF s1(1)] Cons.prems(3,4) by auto
  moreover have "\<forall>m j. map_of (js_goroutines s1) m = Some j \<longrightarrow> m \<in> set ns \<or> ready j"
    using r Cons.prems(5) by auto
  ultimately show ?case using Cons.IH [OF s1(2)] Cons.prems(3) by simp
qed simp

lemma seq_inv_Start:
  assumes "seq_inv s" and "Start ctx s = (s', Returns)"
  shows "seq_inv s'"
proof (cases "js_started s")
  case True
  with assms show ?thesis by (auto simp: Start_def start_begin_def seq_inv_def base_inv_def)
next
  case False
  let ?s = "s\<lparr>js_started := True\<rparr>"
  have b: "base_inv s" "all_ended s" using assms(1) False by (simp_all add: seq_inv_def)
  then have st: "start_jobs ctx (map fst (js_goroutines s)) ?s = (s', Returns)"
    using assms(2) False by (auto simp: Start_def start_begin_def base_inv_def)
  have d: "distinct (map fst (js_goroutines s))" and e: "\<forall>th \<in> set (js_threads s). snd th = Ended"
    using b by (auto simp: base_inv_def sched_inv_def all_ended_def)
  have "base_inv s' \<and> (\<forall>m j. map_of (js_goroutines s') m = Some j \<longrightarrow> ready j)"
    using start_jobs_ready [OF st] b d e by (force dest: map_of_SomeD)
  moreover have "js_started s'" using start_jobs_inv [OF _ st] b(1) by (simp add: base_inv_def)
  ultimately show ?thesis by (auto simp: seq_inv_def base_inv_def sched_inv_def)
qed

lemma seq_inv_work:
  assumes "work_step s s'" and "seq_inv s"
  shows "seq_inv s'"
proof (cases "js_started s")
  case True
  with assms(2) have "\<forall>(n, j) \<in> set (js_goroutines s). j_ctx j \<noteq> None \<and> j_ticker j \<noteq> None"
    by (auto simp: seq_inv_def ready_def)
  from work_step_jobs [OF assms(1), of "\<lambda>c t _. c \<noteq> None \<and> t \<noteq> None", OF this] True show ?thesis
    using work_step_base [OF assms(1)] work_step_started [OF assms(1)] assms(2)
    unfolding seq_inv_def ready_def by simp
next
  case False
  then have e: "all_ended s" using assms(2) by (simp add: seq_inv_def)
  have "\<not> thread_step s s'"
    using e by (auto dest!: thread_step_moves simp: moves_def thread_at_def all_ended_def) (metis nth_mem snd_conv)
  then have "js_threads s' = js_threads s" using assms(1) by (auto elim!: work_step.cases)
  with e show ?thesis
    using work_step_base [OF assms(1)] work_step_started [OF assms(1)] assms(2) False
    by (auto simp: seq_inv_def all_ended_def)
qed

interpretation client: inductive_invariant sched_init seq_step seq_inv
proof
  fix s s'
  show "sched_init s \<Longrightarrow> seq_inv s"
    using scheduling.inv_init [of s]
    by (auto simp: sched_init_def seq_inv_def base_inv_def all_ended_def NewJobScheduler_def Let_def)
  show "seq_step s s' \<Longrightarrow> seq_inv s \<Longrightarrow> seq_inv s'" if "seq_inv s"
    using that by (auto elim!: seq_step.cases intro: seq_inv_work seq_inv_Add seq_inv_Start seq_inv_Stop_call)
qed

section \<open>Properties\<close>

lemma stop_work_bound: "stop_work s \<le> 5 * length (js_threads s)"
proof -
  have "place_work p \<le> 5" for p by (cases p) simp_all
  then have "sum_list (map (place_work \<circ> snd) xs) \<le> 5 * length xs" for xs :: "(string \<times> place) list"
    by (induction xs) (auto simp: add_mono)
  then show ?thesis by (simp add: stop_work_def)
qed

text \<open>
  C3. \<^verbatim>\<open>Stop\<close> terminates. Called on a started scheduler with one client, it neither panics nor waits for a
  mutex. While it waits, the goroutines make at most five steps each, whatever the order, the passing
  of time and the cancellations around them; and as long as the wait is not over, one of them can make
  a step, unless a goroutine was never entered because the context given to \<^verbatim>\<open>Start\<close> was done already.
\<close>

theorem Stop_terminates:
  assumes "reachable sched_init seq_step s" and "js_started s"
  shows "\<exists>s1. Stop_signal s = (s1, Returns) \<and>
    (\<forall>n s'. runs n s1 s' \<longrightarrow> n \<le> 5 * length (js_threads s) \<and>
       (Stop_waited s' \<or> (\<exists>s''. thread_step s' s'') \<or> (\<exists>m. (m, Skipped) \<in> set (js_threads s'))))"
proof -
  from Stop_signal_stopping [OF client.invariant [OF assms(1)] assms(2)]
  obtain s1 where s1: "Stop_signal s = (s1, Returns)" "stopping s1" "js_threads s1 = js_threads s" by blast
  have "n \<le> 5 * length (js_threads s) \<and>
      (Stop_waited s' \<or> (\<exists>s''. thread_step s' s'') \<or> (\<exists>m. (m, Skipped) \<in> set (js_threads s')))"
    if "runs n s1 s'" for n s'
    using runs_stopping [OF that s1(2)] stop_work_bound [of s1] stopping_waited [of s'] s1(3)
    by (metis add_leE order.trans prod.collapse)
  with s1(1) show ?thesis by blast
qed

lemmas demo_running_defs = demo_stopped_def demo_running_def Start_def start_begin_def start_job_def demo_sched_def
  Add_def NewJobScheduler_def demo_cfg_def Second_def set_job_def Stop_signal_def cancel_job_def stop_ticker_def
  demo_env_def set_thread_def thread_at_def

lemma demo_running_reachable: "reachable sched_init seq_step demo_running"
proof -
  have "reachable sched_init seq_step (NewJobScheduler (demo_env False) 1 0)"
    by (rule reach_init) (auto simp: sched_init_def)
  from reach_step [OF this sq_add] have "reachable sched_init seq_step (demo_sched False)"
    by (simp add: demo_sched_def)
  moreover have "Start (WithCancel 0 Background) (demo_sched False) = (demo_running, Returns)"
    by (simp add: demo_running_defs)
  ultimately show ?thesis by (blast intro: reach_step sq_start)
qed

theorem Stop_terminates_witness:
  "\<exists>s1 s'. Stop_signal demo_running = (s1, Returns) \<and> runs 3 s1 s' \<and> Stop_waited s' \<and>
     length (js_threads demo_running) = 1"
proof -
  let ?a = "set_thread 0 Looping demo_stopped"
  let ?b = "set_thread 0 (Selecting (1, WithCancel 0 Background) 1) ?a"
  let ?c = "set_job ''beat'' (\<lambda>j. j\<lparr>j_wg := j_wg j - 1\<rparr>) (set_thread 0 Ended ?b)"
  have st: "js_started demo_running" "length (js_threads demo_running) = 1" by (simp_all add: demo_running_defs)
  have s1: "Stop_signal demo_running = (demo_stopped, Returns)" by (simp add: demo_running_defs)
  have "thread_step demo_stopped ?a"
    by (rule th_enter [of _ _ "''beat''" "WithCancel 0 Background"]) (simp_all add: demo_running_defs)
  moreover have "thread_step ?a ?b"
    by (rule th_read [of _ _ "''beat''" "snd (hd (js_goroutines demo_stopped))"]) (simp_all add: demo_running_defs)
  moreover have "thread_step ?b ?c"
    by (rule th_return [of _ _ _ 1 "WithCancel 0 Background" 1]) (simp_all add: demo_running_defs)
  ultimately have "runs (Suc (Suc (Suc 0))) demo_stopped ?c"
    by (blast intro: runs_refl runs_thread)
  then have "runs 3 demo_stopped ?c" by (simp add: eval_nat_numeral)
  moreover define c where "c = ?c"
  ultimately have r: "runs 3 demo_stopped c" by simp
  have th: "js_threads c = [(''beat'', Ended)]" by (simp add: c_def demo_running_defs)
  then have n: "\<not> (\<exists>s''. thread_step c s'')" by (auto dest!: thread_step_moves simp: moves_def thread_at_def)
  obtain s1 where "Stop_signal demo_running = (s1, Returns)" and t: "\<forall>n s'. runs n s1 s' \<longrightarrow>
      n \<le> 5 * length (js_threads demo_running) \<and>
      (Stop_waited s' \<or> (\<exists>s''. thread_step s' s'') \<or> (\<exists>m. (m, Skipped) \<in> set (js_threads s')))"
    using Stop_terminates [OF demo_running_reachable st(1)] by blast
  with s1 have "s1 = demo_stopped" by simp
  with t r have "Stop_waited c \<or> (\<exists>s''. thread_step c s'') \<or> (\<exists>m. (m, Skipped) \<in> set (js_threads c))" by blast
  with n th have "Stop_waited c" by simp
  with r s1 st show ?thesis by blast
qed

end
