(* ===== verification/Scheduler_Overlap.thy ===== *)
theory Scheduler_Overlap
  imports Scheduler_Stop
begin

text \<open>
  Clients of one scheduler whose calls overlap. \<^verbatim>\<open>Stop\<close> gives up the mutex before it waits, so a \<^verbatim>\<open>Start\<close> may
  come in between. It stores new contexts and tickers in the jobs, and a goroutine of the old round that
  has not yet seen its context end reads them at the head of its loop: it is alive again, beside the
  new goroutine of the same job, and \<^verbatim>\<open>Stop\<close> waits for both.
\<close>

section \<open>A goroutine of a job with a given context\<close>

text \<open>
  Goroutine \<open>k\<close> of job \<open>n\<close> depends on the context \<open>(i, ctx)\<close> alone: it has not ended, was not skipped, and
  waits in a \<^verbatim>\<open>select\<close> for this context only.
\<close>

fun lives :: "nat \<times> ctx \<Rightarrow> place \<Rightarrow> bool" where
  "lives c (Spawned p) \<longleftrightarrow> p = snd c"
| "lives c (Selecting c' t) \<longleftrightarrow> c' = c"
| "lives c Ended \<longleftrightarrow> False"
| "lives c Skipped \<longleftrightarrow> False"
| "lives c _ \<longleftrightarrow> True"

definition alive :: "string \<Rightarrow> nat \<times> ctx \<Rightarrow> JobScheduler \<Rightarrow> nat \<Rightarrow> bool" where
  "alive n c s k \<longleftrightarrow> k < length (js_threads s) \<and> fst (js_threads s ! k) = n \<and> lives c (snd (js_threads s ! k))"

definition has_ctx :: "string \<Rightarrow> nat \<times> ctx \<Rightarrow> JobScheduler \<Rightarrow> bool" where
  "has_ctx n c s \<longleftrightarrow> (\<exists>j. map_of (js_goroutines s) n = Some j \<and> j_ctx j = Some c)"

definition demo_looping :: JobScheduler where
  "demo_looping = set_thread 0 Looping demo_running"

definition demo_restarted :: JobScheduler where
  "demo_restarted = fst (Start (WithCancel 0 Background) (fst (Stop_signal demo_looping)))"

section \<open>Work goes on\<close>

lemma alive_set_thread:
  "alive n c s k \<Longrightarrow> (m = k \<Longrightarrow> lives c p) \<Longrightarrow> alive n c (set_thread m p s) k"
  by (cases "m = k") (auto simp: alive_def set_thread_def)

lemma alive_at: "alive n c s k \<Longrightarrow> thread_at s k m q \<Longrightarrow> m = n \<and> lives c q"
  by (auto simp: alive_def thread_at_def)

lemma alive_selecting: "alive n c s k \<Longrightarrow> thread_at s k m (Selecting (i, p) t) \<Longrightarrow> fst c = i \<and> snd c = p"
  by (auto dest!: alive_at)

lemma alive_fields [simp]:
  "alive n c (s\<lparr>js_rate := r\<rparr>) k = alive n c s k" "alive n c (s\<lparr>js_ticks := t\<rparr>) k = alive n c s k"
  "alive n c (s\<lparr>js_fresh := f\<rparr>) k = alive n c s k" "alive n c (s\<lparr>js_env := e\<rparr>) k = alive n c s k"
  "alive n c (set_job m g s) k = alive n c s k"
  by (simp_all add: alive_def)

lemma alive_thread_step:
  assumes "thread_step s s'" and "alive n c s k" and "has_ctx n c s"
    and "\<not> ctx_done (js_env s) (WithCancel (fst c) (snd c))"
  shows "alive n c s' k"
  using assms(1)
proof (cases rule: thread_step.cases)
  case (th_read m n' j c' t)
  then have "m = k \<Longrightarrow> c' = c" using alive_at [OF assms(2)] assms(3) by (auto simp: has_ctx_def)
  with th_read assms(2) show ?thesis by (auto intro!: alive_set_thread)
next
  case (th_return m n' i p t)
  then have "m \<noteq> k" using alive_selecting [OF assms(2), of n' i p t] assms(4) by auto
  with th_return assms(2) show ?thesis by (auto intro!: alive_set_thread)
next
  case (th_skip m n' p)
  then have "m \<noteq> k" using alive_at [OF assms(2), of n' "Spawned p"] assms(4) by auto
  with th_skip assms(2) show ?thesis by (auto intro!: alive_set_thread)
qed (use assms(2) in \<open>auto intro!: alive_set_thread\<close>)

lemma has_ctx_work:
  assumes "work_step s s'" and "has_ctx n c s"
  shows "has_ctx n c s'"
  using assms
proof (cases rule: work_step.cases)
  case ws_thread
  with assms(2) show ?thesis by (auto simp: has_ctx_def dest: thread_step_jobs)
qed (simp_all add: has_ctx_def)

lemma work_step_env:
  "work_step s s' \<Longrightarrow> ctx_done (js_env s) c \<Longrightarrow> ctx_done (js_env s') c"
proof (induction rule: work_step.induct)
  case (ws_thread s s')
  then have "js_env s' = js_env s" by (cases rule: thread_step.cases) simp_all
  with ws_thread show ?case by simp
qed (auto intro: ctx_done_mono)

lemma alive_work_step:
  assumes "work_step s s'" and "alive n c s k" and "has_ctx n c s"
    and "\<not> ctx_done (js_env s) (WithCancel (fst c) (snd c))"
  shows "alive n c s' k"
  using assms by (cases rule: work_step.cases) (auto intro: alive_thread_step)

lemma alive_work_steps:
  assumes "work_step\<^sup>*\<^sup>* s s'" and "alive n c s k" and "has_ctx n c s"
    and "\<not> ctx_done (js_env s') (WithCancel (fst c) (snd c))"
  shows "alive n c s' k"
proof -
  have "has_ctx n c s' \<and> (\<not> ctx_done (js_env s') (WithCancel (fst c) (snd c)) \<longrightarrow> alive n c s' k)"
    using assms(1)
  proof (induction rule: rtranclp_induct)
    case (step s1 s2)
    then show ?case using has_ctx_work work_step_env alive_work_step by blast
  qed (simp add: assms)
  with assms(4) show ?thesis by blast
qed

section \<open>Start\<close>

lemma start_job_keeps:
  assumes "start_job ctx m s = (s', Returns)"
  shows "js_fresh s \<le> js_fresh s' \<and> (\<exists>ts. js_threads s' = js_threads s @ ts) \<and>
    (n \<noteq> m \<longrightarrow> map_of (js_goroutines s') n = map_of (js_goroutines s) n) \<and>
    (map_of (js_goroutines s) n \<noteq> None \<longrightarrow> map_of (js_goroutines s') n \<noteq> None)"
  using assms by (auto simp: start_job_def map_of_set_job option.map_id split: option.splits if_splits)

lemma start_jobs_keep:
  assumes "start_jobs ctx ns s = (s', Returns)" and "n \<notin> set ns"
  shows "(\<exists>ts. js_threads s' = js_threads s @ ts) \<and> map_of (js_goroutines s') n = map_of (js_goroutines s) n"
  using assms
proof (induction ns arbitrary: s)
  case (Cons m ns)
  then obtain s1 where s1: "start_job ctx m s = (s1, Returns)" "start_jobs ctx ns s1 = (s', Returns)"
    by (auto split: prod.splits api_end.splits)
  with Cons start_job_keeps [OF s1(1), of n] show ?case by fastforce
qed simp

text \<open>\<^verbatim>\<open>Start\<close> gives each job a new context, an unlocked mutex, a ticker and one more goroutine.\<close>

lemma start_jobs_new:
  assumes "start_jobs ctx ns s = (s', Returns)" and "distinct ns" and "n \<in> set ns" and "map_of (js_goroutines s) n \<noteq> None"
  shows "\<exists>j i t ts. map_of (js_goroutines s') n = Some j \<and> j_ctx j = Some (i, ctx) \<and> js_fresh s \<le> i \<and>
    \<not> j_rmu j \<and> j_ticker j = Some t \<and> js_threads s' = js_threads s @ ts \<and> (n, Spawned ctx) \<in> set ts"
  using assms
proof (induction ns arbitrary: s)
  case (Cons m ns)
  then obtain s1 where s1: "start_job ctx m s = (s1, Returns)" "start_jobs ctx ns s1 = (s', Returns)"
    by (auto split: prod.splits api_end.splits)
  note keeps = start_job_keeps [OF s1(1), of n]
  show ?case
  proof (cases "m = n")
    case True
    with s1(1) Cons.prems(4) have
      "\<exists>j. map_of (js_goroutines s1) n = Some j \<and> j_ctx j = Some (js_fresh s, ctx) \<and> \<not> j_rmu j \<and>
        j_ticker j = Some (js_fresh s)" and "js_threads s1 = js_threads s @ [(n, Spawned ctx)]"
      by (auto simp: start_job_def map_of_set_job split: if_splits)
    with start_jobs_keep [OF s1(2), of n] True Cons.prems(2) show ?thesis by fastforce
  next
    case False
    with Cons.prems keeps have "distinct ns" "n \<in> set ns" "map_of (js_goroutines s1) n \<noteq> None" by auto
    from Cons.IH [OF s1(2) this] keeps show ?thesis by fastforce
  qed
qed simp

lemma Start_stopped:
  assumes "stopping s" and "Start ctx s = (s', Returns)" and "thread_at s k n q"
  shows "sched_inv s' \<and> (\<exists>j i t ts. map_of (js_goroutines s') n = Some j \<and> j_ctx j = Some (i, ctx) \<and> js_fresh s \<le> i \<and>
    \<not> j_rmu j \<and> j_ticker j = Some t \<and> js_threads s' = js_threads s @ ts \<and> (n, Spawned ctx) \<in> set ts)"
proof -
  let ?s = "s\<lparr>js_started := True\<rparr>" and ?ns = "map fst (js_goroutines s)"
  have inv: "sched_inv s" "\<not> js_mu s" "\<not> js_started s" using assms(1) by (simp_all add: stopping_def base_inv_def)
  with assms(2) have st: "start_jobs ctx ?ns ?s = (s', Returns)" by (simp add: Start_def start_begin_def)
  have "(n, q) \<in> set (js_threads s)" using assms(3) by (metis nth_mem thread_at_def)
  with inv(1) have n: "n \<in> set ?ns" and d: "distinct ?ns" by (force simp: sched_inv_def)+
  have "sched_inv s'" using start_jobs_inv [OF _ st] inv(1) by simp
  moreover have "map_of (js_goroutines ?s) n \<noteq> None" using n by (simp add: map_of_eq_None_iff)
  ultimately show ?thesis using start_jobs_new [OF st d n] by simp
qed

section \<open>Properties\<close>

text \<open>
  C31. A \<^verbatim>\<open>Start\<close> while \<^verbatim>\<open>Stop\<close> waits. Let a goroutine be at the head of its loop when \<^verbatim>\<open>Stop\<close> signals and let a
  \<^verbatim>\<open>Start\<close> return before the wait is over. Then the goroutine can go on with the new context, and in whatever
  follows, as long as the new context is not done, the wait of the first \<^verbatim>\<open>Stop\<close> is not over, and the job
  has two goroutines.
\<close>

theorem Start_during_Stop_revives:
  assumes "reachable sched_init seq_step s" and "js_started s" and "thread_at s k n Looping"
    and "Stop_signal s = (s1, Returns)" and "Start ctx s1 = (s2, Returns)"
  shows "\<exists>i t s3 k'. js_fresh s1 \<le> i \<and> thread_step s2 s3 \<and> thread_at s3 k n (Selecting (i, ctx) t) \<and> k' \<noteq> k \<and>
    (\<forall>s'. work_step\<^sup>*\<^sup>* s2 s' \<and> \<not> ctx_done (js_env s') (WithCancel i ctx) \<longrightarrow>
       \<not> Stop_waited s' \<and> (\<forall>m \<in> {k, k'}. \<exists>p. thread_at s' m n p \<and> p \<noteq> Ended \<and> p \<noteq> Skipped))"
proof -
  have s1: "stopping s1" "js_threads s1 = js_threads s"
    using Stop_signal_stopping [OF client.invariant [OF assms(1)] assms(2)] assms(4) by auto
  then have k: "thread_at s1 k n Looping" using assms(3) by (simp add: thread_at_def)
  from Start_stopped [OF s1(1) assms(5) k] obtain j i t ts where inv: "sched_inv s2"
    and j: "map_of (js_goroutines s2) n = Some j" "j_ctx j = Some (i, ctx)" "\<not> j_rmu j" "j_ticker j = Some t"
    and i: "js_fresh s1 \<le> i" and ts: "js_threads s2 = js_threads s1 @ ts" "(n, Spawned ctx) \<in> set ts" by blast
  have k2: "thread_at s2 k n Looping" using k ts(1) by (simp add: thread_at_def nth_append)
  from ts(2) obtain m where m: "m < length ts" "ts ! m = (n, Spawned ctx)" by (meson in_set_conv_nth)
  let ?k' = "length (js_threads s1) + m"
  have alive: "alive n (i, ctx) s2 l" if "l \<in> {k, ?k'}" for l
    using that k2 m ts(1) by (auto simp: alive_def thread_at_def)
  have "has_ctx n (i, ctx) s2" using j by (simp add: has_ctx_def)
  with alive have a: "alive n (i, ctx) s' l" if "work_step\<^sup>*\<^sup>* s2 s'" "\<not> ctx_done (js_env s') (WithCancel i ctx)"
    "l \<in> {k, ?k'}" for s' l
    using alive_work_steps [OF that(1), of n "(i, ctx)" l] that by simp
  have th: "\<exists>p. thread_at s' l n p \<and> p \<noteq> Ended \<and> p \<noteq> Skipped" if "alive n (i, ctx) s' l" for s' l
    using that by (auto simp: alive_def thread_at_def intro!: exI [of _ "snd (js_threads s' ! l)"] prod_eqI)
  have "\<not> Stop_waited s'" if "work_step\<^sup>*\<^sup>* s2 s'" "\<not> ctx_done (js_env s') (WithCancel i ctx)" for s'
    using th [OF a [OF that, of k]] Stop_waited_ended [OF work_steps_inv [OF that(1) inv]]
    by (metis insertI1 nth_mem snd_conv thread_at_def)
  moreover have "thread_step s2 (set_thread k (Selecting (i, ctx) t) s2)" using th_read [OF k2 j(1,3,2,4)] .
  moreover have "thread_at (set_thread k (Selecting (i, ctx) t) s2) k n (Selecting (i, ctx) t)"
    using k2 by (simp add: thread_at_def set_thread_def)
  moreover have "?k' \<noteq> k" using k by (simp add: thread_at_def)
  ultimately show ?thesis using i a th by blast
qed

lemma demo_looping_reachable: "reachable sched_init seq_step demo_looping"
proof -
  have "thread_step demo_running demo_looping"
    unfolding demo_looping_def
    by (rule th_enter [of _ _ "''beat''" "WithCancel 0 Background"]) (simp_all add: demo_running_defs)
  with demo_running_reachable show ?thesis by (blast intro: reach_step sq_work ws_thread)
qed

theorem Start_during_Stop_revives_witness:
  "\<exists>s1 s3 t. Stop_signal demo_looping = (s1, Returns) \<and> Start (WithCancel 0 Background) s1 = (demo_restarted, Returns) \<and>
     thread_step demo_restarted s3 \<and> thread_at s3 0 ''beat'' (Selecting (2, WithCancel 0 Background) t)"
proof -
  let ?s1 = "fst (Stop_signal demo_looping)"
  have st: "js_started demo_looping" "thread_at demo_looping 0 ''beat'' Looping"
    by (simp_all add: demo_looping_def demo_running_defs)
  have a: "Stop_signal demo_looping = (?s1, Returns)" by (simp add: demo_looping_def demo_running_defs)
  have b: "Start (WithCancel 0 Background) ?s1 = (demo_restarted, Returns)"
    by (simp add: demo_restarted_def demo_looping_def demo_running_defs)
  from Start_during_Stop_revives [OF demo_looping_reachable st a b] obtain i t s3 where
    s3: "thread_step demo_restarted s3" "thread_at s3 0 ''beat'' (Selecting (i, WithCancel 0 Background) t)" by blast
  have j: "\<And>j. map_of (js_goroutines demo_restarted) ''beat'' = Some j \<Longrightarrow> j_ctx j = Some (2, WithCancel 0 Background)"
    "js_threads demo_restarted ! 0 = (''beat'', Looping)"
    by (auto simp: demo_restarted_def demo_looping_def demo_running_defs)
  from thread_step_moves [OF s3(1)] s3(2) j have "i = 2"
    by (auto simp: moves_def thread_at_def set_thread_def nth_list_update split: if_splits)
  with a b s3 show ?thesis by blast
qed

end
