(* ===== verification/Election.thy ===== *)
theory Election
  imports Watchdog
begin

text \<open>
  Safety and progress of the election as a whole. \<open>isLeader\<close> is what a process believes; the lock at the
  server may run out before the process notices. As long as no leader's lease runs out unnoticed, a
  leader is the holder of the lock, so there is at most one. Without that assumption two processes can
  believe it at the same time, and once a lease has run out the next process to ask takes over.
\<close>

section \<open>Leaders with a lease\<close>

text \<open>No process believes itself to be the leader while the lock is free.\<close>

definition lease_alive :: "Config \<Rightarrow> 'r election \<Rightarrow> bool" where
  "lease_alive cfg e \<longleftrightarrow>
     (\<forall>i. wd_isLeader (el_node e i) \<longrightarrow> holder (el_server e) (ElectionName cfg) \<noteq> None)"

inductive timely_step :: "Config \<Rightarrow> (nat \<Rightarrow> string) \<Rightarrow> 'r election \<Rightarrow> 'r election \<Rightarrow> bool"
  for cfg :: Config and val :: "nat \<Rightarrow> string" where
  timely: "elect_step cfg val e e' \<Longrightarrow> lease_alive cfg e' \<Longrightarrow> timely_step cfg val e e'"

definition leaders_hold :: "Config \<Rightarrow> (nat \<Rightarrow> string) \<Rightarrow> 'r election \<Rightarrow> bool" where
  "leaders_hold cfg val e \<longleftrightarrow>
     (\<forall>i. wd_isLeader (el_node e i) \<longrightarrow> holder (el_server e) (ElectionName cfg) = Some (val i))"

definition lease_inv :: "Config \<Rightarrow> (nat \<Rightarrow> string) \<Rightarrow> 'r election \<Rightarrow> bool" where
  "lease_inv cfg val e \<longleftrightarrow> srv_invar (el_server e) \<and>
     (inj val \<longrightarrow> Millisecond \<le> Expiration cfg \<longrightarrow> leaders_hold cfg val e)"

definition demo_config :: Config where
  "demo_config = \<lparr>ElectionName = ''cron'', Expiration = 30 * Second\<rparr>"

definition demo_val :: "nat \<Rightarrow> string" where
  "demo_val i = replicate i CHR ''x''"

definition demo_start :: "(string \<rightharpoonup> string \<times> int) election" where
  "demo_start = \<lparr>el_server = map_redis Map.empty, el_node = (\<lambda>_. new_watchdog), el_ctx_done = (\<lambda>_. False)\<rparr>"

text \<open>Process 0 is elected; then its lease runs out and process 1 is elected.\<close>

definition demo_elected :: "(string \<rightharpoonup> string \<times> int) election" where
  "demo_elected = set_node demo_start 0 (on_tick Reached demo_config (demo_val 0) (el_server demo_start, el_node demo_start 0))"

definition demo_expired :: "(string \<rightharpoonup> string \<times> int) election" where
  "demo_expired = demo_elected\<lparr>el_server := srv_advance (el_server demo_elected) 30000\<rparr>"

definition demo_taken_over :: "(string \<rightharpoonup> string \<times> int) election" where
  "demo_taken_over = set_node demo_expired 1 (on_tick Reached demo_config (demo_val 1) (el_server demo_expired, el_node demo_expired 1))"

section \<open>One branch of one process\<close>

lemma Milliseconds_ge_1: "Millisecond \<le> d \<Longrightarrow> 0 < Milliseconds d"
  by (simp add: Milliseconds_pos Millisecond_def)

lemma ExtendLockTTL_holder:
  assumes "srv_invar s" and "ExtendLockTTL n s k v d = (s', ok, e)" and "Millisecond \<le> d"
  shows "holder s' = holder s"
proof -
  have "holder s k = Some v \<Longrightarrow> (holder s)(k \<mapsto> v) = holder s" by (simp add: fun_upd_idem)
  with ExtendLockTTL_view(2) [OF assms(1,2)] Milliseconds_ge_1 [OF assms(3)] show ?thesis
    by (auto dest!: holder_upd holder_same)
qed

text \<open>
  What a tick and the end of the context do to the lock and to \<^verbatim>\<open>isLeader\<close>: the lock changes hands only
  from nobody to the process, or from the process to nobody, and only the process's own belief changes.
\<close>

lemma on_tick_lock:
  assumes "srv_invar s" and "Millisecond \<le> Expiration cfg" and "on_tick n cfg v (s, w) = (s', w')"
  shows "holder s' = holder s \<or> holder s (ElectionName cfg) = None \<and> holder s' = (holder s)(ElectionName cfg \<mapsto> v)"
    and "wd_isLeader w' \<Longrightarrow> wd_isLeader w \<or> holder s' (ElectionName cfg) = Some v"
proof -
  obtain s1 ok1 e1 where l: "Lock n s (ElectionName cfg) v (Expiration cfg) = (s1, ok1, e1)" using prod_cases3 by blast
  obtain s2 ok2 e2 where x: "ExtendLockTTL n s (ElectionName cfg) v (Expiration cfg) = (s2, ok2, e2)"
    using prod_cases3 by blast
  show "holder s' = holder s \<or> holder s (ElectionName cfg) = None \<and> holder s' = (holder s)(ElectionName cfg \<mapsto> v)"
    using assms(3) l x redis.lock_cases [OF assms(1) l] ExtendLockTTL_holder [OF assms(1) x assms(2)]
    by (auto simp: on_tick_def try_lock_def split: if_splits)
  show "wd_isLeader w' \<Longrightarrow> wd_isLeader w \<or> holder s' (ElectionName cfg) = Some v"
    using assms(3) l redis.lock_ok [OF assms(1), of n _ v _ s1 e1] by (auto simp: on_tick_def try_lock_def split: if_splits)
qed

lemma on_done_lock:
  assumes "srv_invar s" and "on_done n cfg v (s, w) = (s', w')"
  shows "holder s' = holder s \<or> wd_isLeader w \<and> holder s (ElectionName cfg) = Some v"
    and "\<not> wd_isLeader w'"
proof -
  obtain s1 ok1 e1 where u: "Unlock n s (ElectionName cfg) v = (s1, ok1, e1)" using prod_cases3 by blast
  show "holder s' = holder s \<or> wd_isLeader w \<and> holder s (ElectionName cfg) = Some v" "\<not> wd_isLeader w'"
    using assms(2) u redis.unlock_cases [OF assms(1) u] by (auto simp: on_done_def send_def split: if_splits)
qed

section \<open>The invariant\<close>

lemma leaders_hold_set_node:
  assumes "leaders_hold cfg val e" and "inj val"
    and "holder s' = holder (el_server e) \<or>
      holder (el_server e) (ElectionName cfg) = None \<or> holder (el_server e) (ElectionName cfg) = Some (val i)"
    and "wd_isLeader w' \<Longrightarrow> holder s' (ElectionName cfg) = Some (val i)"
  shows "leaders_hold cfg val (set_node e i (s', w'))"
  using assms by (auto simp: leaders_hold_def set_node_def inj_def)

lemma leaders_hold_step:
  assumes "elect_step cfg val e e'" and "lease_alive cfg e'" and "srv_invar (el_server e)" and "inj val"
    and "Millisecond \<le> Expiration cfg" and h: "leaders_hold cfg val e"
  shows "leaders_hold cfg val e'"
  using assms(1)
proof (cases rule: elect_step.cases)
  case (el_tick i n)
  obtain s' w' where t: "on_tick n cfg (val i) (el_server e, el_node e i) = (s', w')" by fastforce
  note l = on_tick_lock [OF assms(3,5) t]
  have "wd_isLeader w' \<Longrightarrow> holder s' (ElectionName cfg) = Some (val i)"
    using l h by (auto simp: leaders_hold_def)
  with el_tick t l(1) leaders_hold_set_node [OF h assms(4)] show ?thesis by auto
next
  case (el_done i n)
  obtain s' w' where t: "on_done n cfg (val i) (el_server e, el_node e i) = (s', w')" by fastforce
  from el_done t on_done_lock [OF assms(3) t] leaders_hold_set_node [OF h assms(4)] show ?thesis by auto
next
  case (el_time d)
  let ?k = "ElectionName cfg"
  have "holder (el_server e') ?k = None \<or> holder (el_server e') ?k = holder (el_server e) ?k"
    using el_time assms(3) by (auto simp: holder_def srv_advance_view split: option.splits)
  with el_time assms(2) h show ?thesis by (auto simp: leaders_hold_def lease_alive_def)
qed (use h in \<open>auto simp: leaders_hold_def set_node_def send_done_def split: option.splits\<close>)

lemma timely_step_inv:
  assumes "timely_step cfg val e e'" and "lease_inv cfg val e"
  shows "lease_inv cfg val e'"
proof -
  from assms(1) have s: "elect_step cfg val e e'" "lease_alive cfg e'" by (auto elim: timely_step.cases)
  then have "srv_invar (el_server e')"
    using assms(2) by (cases rule: elect_step.cases) (auto simp: lease_inv_def set_node_def inv_intros)
  with s assms(2) show ?thesis by (auto simp: lease_inv_def intro: leaders_hold_step)
qed

interpretation lease: inductive_invariant elect_init "timely_step cfg val" "lease_inv cfg val"
  for cfg :: Config and val :: "nat \<Rightarrow> string"
proof
  show "elect_init s \<Longrightarrow> lease_inv cfg val s" for s :: "'r election"
    by (simp add: elect_init_def lease_inv_def leaders_hold_def new_watchdog_def)
qed (rule timely_step_inv)

section \<open>Properties\<close>

text \<open>
  At most one leader: with different values for different processes and a lease of at least a
  millisecond (the resolution of the server), in every state that any interleaving of the processes
  can reach without a lease running out unnoticed, a leader is the holder of the lock, so no two
  processes are leaders at the same time; messages may be lost at will.
\<close>

theorem at_most_one_leader:
  assumes "reachable elect_init (timely_step cfg val) e" and "inj val" and "Millisecond \<le> Expiration cfg"
    and "wd_isLeader (el_node e i)"
  shows "holder (el_server e) (ElectionName cfg) = Some (val i) \<and> (wd_isLeader (el_node e j) \<longrightarrow> j = i)"
proof -
  have "leaders_hold cfg val e" using lease.invariant [OF assms(1)] assms(2,3) by (simp add: lease_inv_def)
  with assms(2,4) show ?thesis by (metis leaders_hold_def option.inject injD)
qed

lemmas demo_election_defs = demo_taken_over_def demo_expired_def demo_elected_def demo_start_def demo_config_def
  demo_val_def set_node_def on_tick_def try_lock_def new_watchdog_def send_def Lock_def Eval_def lockScript_def
  srv_advance_def map_redis_def map_redis_ops_def eval_result_def Milliseconds_def go_div_def Second_def Millisecond_def

lemma inj_demo_val: "inj demo_val"
  by (auto simp: inj_def demo_val_def)

lemma demo_elected_step: "elect_step demo_config demo_val demo_start demo_elected"
  unfolding demo_elected_def by (rule el_tick) (simp add: in_loop_def demo_start_def new_watchdog_def)

theorem at_most_one_leader_witness:
  "wd_isLeader (el_node demo_elected 0) \<and> holder (el_server demo_elected) ''cron'' = Some (demo_val 0)"
proof -
  have "holder (el_server demo_elected) (ElectionName demo_config) \<noteq> None"
    by (simp add: holder_def lock_view_def demo_election_defs)
  then have "lease_alive demo_config demo_elected" by (simp add: lease_alive_def)
  then have "timely_step demo_config demo_val demo_start demo_elected"
    using demo_elected_step by (rule timely [rotated])
  moreover have "reachable elect_init (timely_step demo_config demo_val) demo_start"
    by (rule reach_init) (simp add: elect_init_def demo_start_def)
  ultimately have r: "reachable elect_init (timely_step demo_config demo_val) demo_elected"
    by (rule reach_step [rotated])
  have m: "Millisecond \<le> Expiration demo_config" by (simp add: demo_election_defs)
  have l: "wd_isLeader (el_node demo_elected 0)" by (simp add: demo_election_defs)
  from at_most_one_leader [OF r inj_demo_val m l] l show ?thesis by (simp add: demo_config_def)
qed

text \<open>
  The assumption on leases is needed: an election can reach a state with two leaders, when the lease of
  the first ran out before its next renewal. Nothing but the renewal tells the first one.
\<close>

theorem two_leaders_after_expiry:
  "\<exists>e :: (string \<rightharpoonup> string \<times> int) election.
     reachable elect_init (elect_step demo_config demo_val) e \<and>
     wd_isLeader (el_node e 0) \<and> wd_isLeader (el_node e 1) \<and> holder (el_server e) ''cron'' = Some (demo_val 1)"
proof -
  have "reachable elect_init (elect_step demo_config demo_val) demo_start"
    by (rule reach_init) (simp add: elect_init_def demo_start_def)
  then have "reachable elect_init (elect_step demo_config demo_val) demo_elected"
    using demo_elected_step by (rule reach_step)
  then have "reachable elect_init (elect_step demo_config demo_val) demo_expired"
    unfolding demo_expired_def by (rule reach_step) (rule el_time, simp)
  moreover have "elect_step demo_config demo_val demo_expired demo_taken_over"
    unfolding demo_taken_over_def
    by (rule el_tick) (simp add: in_loop_def demo_expired_def demo_elected_def set_node_def demo_start_def new_watchdog_def)
  ultimately have "reachable elect_init (elect_step demo_config demo_val) demo_taken_over" by (rule reach_step)
  moreover have "wd_isLeader (el_node demo_taken_over 0)" "wd_isLeader (el_node demo_taken_over 1)"
    "holder (el_server demo_taken_over) ''cron'' = Some (demo_val 1)"
    by (simp_all add: holder_def lock_view_def demo_election_defs)
  ultimately show ?thesis by blast
qed

text \<open>
  C14. Failover: when the holder of the lock has stopped renewing it and the rest of its lease has passed,
  the next tick of any process that reaches the server makes that process the leader, with a full lease,
  and reports it.
\<close>

theorem failover:
  assumes "srv_invar s" and "lock_view s (ElectionName cfg) = Some (u, t)" and "0 \<le> t" and "t \<le> d"
    and "\<not> wd_isLeader w" and "Millisecond \<le> Expiration cfg"
    and "on_tick Reached cfg v (srv_advance s d, w) = (s', w')"
  shows "wd_isLeader w' \<and> wd_pending w' = Some (TakenAcquire, False) \<and> wd_events w' = wd_events w @ [TakenAcquire] \<and>
    lock_view s' (ElectionName cfg) = Some (v, Milliseconds (Expiration cfg))"
proof -
  let ?s = "srv_advance s d" and ?k = "ElectionName cfg" and ?ms = "Milliseconds (Expiration cfg)"
  have free: "lock_view ?s ?k = None" using assms(1-4) by (simp add: srv_advance_view)
  obtain s1 r1 where l: "lockScript ?s (lockKeyPrefix @ ?k) v ?ms = (s1, r1)" by fastforce
  from lockScript_view [OF srv_advance_invar [OF assms(1)] l] free Milliseconds_ge_1 [OF assms(6)]
  have "lock_view s1 = (lock_view ?s)(?k \<mapsto> (v, ?ms))" "r1 = Inr 1" by simp_all
  with assms(5,7) l show ?thesis
    by (auto simp: on_tick_def try_lock_def Lock_def Eval_def eval_result_def send_def)
qed

theorem failover_witness:
  "wd_isLeader (snd (on_tick Reached demo_config ''b''
     (srv_advance (map_redis [lockKeyPrefix @ ''cron'' \<mapsto> (''a'', 30000)]) 30000, new_watchdog)))"
proof -
  let ?s = "map_redis [lockKeyPrefix @ ''cron'' \<mapsto> (''a'', 30000)]"
  have a: "lock_view ?s (ElectionName demo_config) = Some (''a'', 30000)"
    by (simp add: map_redis_view demo_config_def)
  have b: "(0::int) \<le> 30000" "(30000::int) \<le> 30000" "\<not> wd_isLeader new_watchdog" "Millisecond \<le> Expiration demo_config"
    by (simp_all add: new_watchdog_def demo_config_def Millisecond_def Second_def)
  from failover [OF map_redis_invar a b surjective_pairing] show ?thesis by blast
qed

end
