(* ===== verification/Leader_Service.thy ===== *)
theory Leader_Service
  imports Election Scheduler_Stop
begin

text \<open>
  The parts put together the way the library means them to be used (and \<^verbatim>\<open>examples/cmd/run\<close> shows): every
  process of a service takes part in the election; a supervisor of the kernel listens to its watchdog
  and has \<^verbatim>\<open>sch.Start(ctx)\<close> and \<^verbatim>\<open>sch.Stop()\<close> of a job scheduler as its callbacks.

  Here a callback is not one step: while the supervisor's mutex is held, \<^verbatim>\<open>Start\<close> goes through its jobs one
  by one and \<^verbatim>\<open>Stop\<close> waits for the goroutines, and everything else in the cluster goes on. The phase says
  where in a callback the holder of the mutex is.
\<close>

section \<open>One process\<close>

text \<open>
  \<open>Free\<close>: the mutex is free. \<open>Starting ns\<close>: in \<^verbatim>\<open>Start\<close>, with the jobs \<open>ns\<close> still to start. \<open>Stopping b\<close>: in the
  wait of \<^verbatim>\<open>Stop\<close>, called by the listening goroutine or (\<open>b\<close> false) by \<^verbatim>\<open>Kernel.Stop\<close>. \<open>Dead\<close>: the callback
  panicked or waits for ever, with the mutex held.
\<close>

datatype phase = Free | Starting "string list" | Stopping bool | Dead

record service =
  sv_phase :: phase
  sv_Working :: bool
  sv_listening :: bool
  sv_cancelled :: bool
  sv_kernel_done :: bool
  sv_sched :: JobScheduler
  sv_handled :: "int list"

text \<open>The context of the kernel, given to \<^verbatim>\<open>Start\<close>; its cancel function is number 0 in every process.\<close>

definition kernel_ctx :: ctx where "kernel_ctx = WithCancel 0 Background"

definition call_Stop :: "bool \<Rightarrow> service \<Rightarrow> service" where
  "call_Stop by_listener p =
     (case Stop_signal (sv_sched p) of
        (s, Returns) \<Rightarrow> p\<lparr>sv_sched := s, sv_phase := Stopping by_listener\<rparr>
      | (s, _) \<Rightarrow> p\<lparr>sv_sched := s, sv_phase := Dead\<rparr>)"

definition call_Start :: "service \<Rightarrow> service" where
  "call_Start p =
     (case start_begin (sv_sched p) of
        (s, Returns, ns) \<Rightarrow> p\<lparr>sv_sched := s, sv_phase := Starting ns\<rparr>
      | (s, _, ns) \<Rightarrow> p\<lparr>sv_sched := s, sv_phase := Dead\<rparr>)"

text \<open>The branch of a received event, up to the callback.\<close>

definition on_event :: "int \<Rightarrow> service \<Rightarrow> service" where
  "on_event res p =
     (let p = p\<lparr>sv_handled := sv_handled p @ [res]\<rparr> in
      if res = LostAcquire \<and> sv_Working p then call_Stop True p
      else if res = TakenAcquire \<and> \<not> sv_Working p then call_Start p
      else p)"

definition start_next :: "service \<Rightarrow> service" where
  "start_next p =
     (case sv_phase p of
        Starting [] \<Rightarrow> p\<lparr>sv_phase := Free, sv_Working := True\<rparr>
      | Starting (n # ns) \<Rightarrow>
          (case start_job kernel_ctx n (sv_sched p) of
             (s, Returns) \<Rightarrow> p\<lparr>sv_sched := s, sv_phase := Starting ns\<rparr>
           | (s, _) \<Rightarrow> p\<lparr>sv_sched := s, sv_phase := Dead\<rparr>)
      | _ \<Rightarrow> p)"

definition stop_done :: "service \<Rightarrow> service" where
  "stop_done p =
     (case sv_phase p of Stopping _ \<Rightarrow> p\<lparr>sv_phase := Free, sv_Working := False\<rparr> | _ \<Rightarrow> p)"

text \<open>\<^verbatim>\<open>Kernel.Stop\<close> at this supervisor, once it has the mutex.\<close>

definition kernel_stop :: "service \<Rightarrow> service" where
  "kernel_stop p =
     (let p = p\<lparr>sv_cancelled := True\<rparr> in if sv_Working p then call_Stop False p else p)"

text \<open>The branches of the two contexts.\<close>

definition leave :: "service \<Rightarrow> service" where
  "leave p = p\<lparr>sv_listening := False\<rparr>"

definition leave_cancelled :: "service \<Rightarrow> service" where
  "leave_cancelled p = p\<lparr>sv_Working := False, sv_listening := False\<rparr>"

text \<open>
  What a process does by itself: goroutines of the scheduler, the callbacks, \<^verbatim>\<open>Kernel.Stop\<close>, the contexts.
\<close>

inductive service_step :: "service \<Rightarrow> service \<Rightarrow> bool" where
  sv_work: "work_step (sv_sched p) s \<Longrightarrow> service_step p (p\<lparr>sv_sched := s\<rparr>)"
| sv_start: "service_step p (start_next p)"
| sv_waited: "Stop_waited (sv_sched p) \<Longrightarrow> service_step p (stop_done p)"
| sv_stop: "sv_phase p = Free \<Longrightarrow> service_step p (kernel_stop p)"
| sv_leave: "sv_listening p \<Longrightarrow> sv_phase p = Free \<or> sv_phase p = Stopping False \<Longrightarrow> sv_kernel_done p \<Longrightarrow>
    service_step p (leave p)"
| sv_leave_cancelled: "sv_listening p \<Longrightarrow> sv_phase p = Free \<Longrightarrow> sv_kernel_done p \<or> sv_cancelled p \<Longrightarrow>
    service_step p (leave_cancelled p)"

section \<open>The cluster\<close>

record 'r cluster =
  cl_election :: "'r election"
  cl_service :: "nat \<Rightarrow> service"

definition set_service :: "'r cluster \<Rightarrow> nat \<Rightarrow> service \<Rightarrow> 'r cluster" where
  "set_service c i p = c\<lparr>cl_service := (cl_service c)(i := p)\<rparr>"

text \<open>The end of the kernel's context ends the watchdog's and the schedulers' contexts with it.\<close>

definition kernel_cancel :: "service \<Rightarrow> service" where
  "kernel_cancel p = p\<lparr>sv_kernel_done := True,
     sv_sched := (sv_sched p)\<lparr>js_env := (js_env (sv_sched p))\<lparr>env_cancelled := insert 0 (env_cancelled (js_env (sv_sched p)))\<rparr>\<rparr>\<rparr>"

text \<open>
  \<open>estep\<close> is the step relation of the election. A step of the election that takes nothing out of a
  channel, a process receiving an event, the end of a channel, a step of one process, or the end of a
  process's kernel context.
\<close>

inductive cluster_step :: "('r election \<Rightarrow> 'r election \<Rightarrow> bool) \<Rightarrow> 'r cluster \<Rightarrow> 'r cluster \<Rightarrow> bool"
  for estep :: "'r election \<Rightarrow> 'r election \<Rightarrow> bool" where
  cs_election: "estep (cl_election c) e \<Longrightarrow>
    (\<And>i. length (wd_watcher (el_node (cl_election c) i)) \<le> length (wd_watcher (el_node e i))) \<Longrightarrow>
    cluster_step estep c (c\<lparr>cl_election := e\<rparr>)"
| cs_receive: "sv_listening (cl_service c i) \<Longrightarrow> sv_phase (cl_service c i) = Free \<Longrightarrow>
    wd_watcher (el_node (cl_election c) i) = ev # evs \<Longrightarrow>
    e = set_node (cl_election c) i (el_server (cl_election c), (el_node (cl_election c) i)\<lparr>wd_watcher := evs\<rparr>) \<Longrightarrow>
    estep (cl_election c) e \<Longrightarrow>
    cluster_step estep c (set_service (c\<lparr>cl_election := e\<rparr>) i (on_event ev (cl_service c i)))"
| cs_closed: "sv_listening (cl_service c i) \<Longrightarrow> wd_watcher (el_node (cl_election c) i) = [] \<Longrightarrow>
    wd_closed (el_node (cl_election c) i) \<Longrightarrow> sv_phase (cl_service c i) = Free \<or> sv_phase (cl_service c i) = Stopping False \<Longrightarrow>
    cluster_step estep c (set_service c i (leave (cl_service c i)))"
| cs_service: "service_step (cl_service c i) p \<Longrightarrow> cluster_step estep c (set_service c i p)"
| cs_cancel: "e = (cl_election c)\<lparr>el_ctx_done := (el_ctx_done (cl_election c))(i := True)\<rparr> \<Longrightarrow>
    estep (cl_election c) e \<Longrightarrow>
    cluster_step estep c (set_service (c\<lparr>cl_election := e\<rparr>) i (kernel_cancel (cl_service c i)))"

text \<open>At first nothing is elected; the jobs were added with positive ticks, and the supervisors listen.\<close>

definition new_service :: "ctx_env \<Rightarrow> int \<Rightarrow> JobConfiguration list \<Rightarrow> service" where
  "new_service env rate jobs =
     \<lparr>sv_phase = Free, sv_Working = False, sv_listening = True, sv_cancelled = False, sv_kernel_done = False,
      sv_sched = fold (\<lambda>cfg s. fst (Add cfg s)) jobs (NewJobScheduler env 1 rate), sv_handled = []\<rparr>"

definition cluster_init :: "'r cluster \<Rightarrow> bool" where
  "cluster_init c \<longleftrightarrow> elect_init (cl_election c) \<and>
     (\<forall>i. \<exists>env rate jobs. (\<forall>cfg \<in> set jobs. 0 < Tick cfg) \<and> cl_service c i = new_service env rate jobs)"

section \<open>Invariants\<close>

definition phase_inv :: "service \<Rightarrow> bool" where
  "phase_inv p \<longleftrightarrow>
     (case sv_phase p of
        Free \<Rightarrow> seq_inv (sv_sched p) \<and> (sv_Working p \<longrightarrow> js_started (sv_sched p)) \<and>
          (sv_listening p \<and> \<not> sv_Working p \<longrightarrow> \<not> js_started (sv_sched p)) \<and>
          (sv_Working p \<longrightarrow> sv_handled p \<noteq> [] \<and> last (sv_handled p) = TakenAcquire)
      | Starting ns \<Rightarrow> base_inv (sv_sched p) \<and> js_started (sv_sched p) \<and> distinct ns \<and> \<not> sv_Working p \<and>
          (\<forall>th \<in> set (js_threads (sv_sched p)). fst th \<in> set ns \<longrightarrow> snd th = Ended) \<and>
          (\<forall>m j. map_of (js_goroutines (sv_sched p)) m = Some j \<longrightarrow> m \<in> set ns \<or> ready j) \<and>
          sv_handled p \<noteq> [] \<and> last (sv_handled p) = TakenAcquire
      | Stopping b \<Rightarrow> stopping (sv_sched p) \<and> sv_Working p
      | Dead \<Rightarrow> False)"

definition ticks_ok :: "JobScheduler \<Rightarrow> bool" where
  "ticks_ok s \<longleftrightarrow> (\<forall>nj \<in> set (js_goroutines s). 0 < j_tick (snd nj))"

definition service_inv :: "service \<Rightarrow> bool" where
  "service_inv p \<longleftrightarrow> phase_inv p \<and> ticks_ok (sv_sched p)"

text \<open>Until its context ends, a process loses no event between the watchdog and the supervisor.\<close>

definition pending_event :: "watchdog \<Rightarrow> int list" where
  "pending_event w = (case wd_pending w of None \<Rightarrow> [] | Some (ev, _) \<Rightarrow> [ev])"

definition events_inv :: "'r cluster \<Rightarrow> bool" where
  "events_inv c \<longleftrightarrow> (\<forall>i. \<not> el_ctx_done (cl_election c) i \<longrightarrow>
     wd_events (el_node (cl_election c) i) =
       sv_handled (cl_service c i) @ wd_watcher (el_node (cl_election c) i) @ pending_event (el_node (cl_election c) i))"

definition cluster_inv :: "'r cluster \<Rightarrow> bool" where
  "cluster_inv c \<longleftrightarrow> elect_inv (cl_election c) \<and> (\<forall>i. service_inv (cl_service c i)) \<and> events_inv c"

text \<open>A process has caught up: it listens, has handled its events, and is not inside a callback.\<close>

definition settled :: "'r cluster \<Rightarrow> nat \<Rightarrow> bool" where
  "settled c i \<longleftrightarrow> sv_listening (cl_service c i) \<and> sv_phase (cl_service c i) = Free \<and>
     \<not> el_ctx_done (cl_election c) i \<and>
     wd_watcher (el_node (cl_election c) i) = [] \<and> wd_pending (el_node (cl_election c) i) = None"

text \<open>A goroutine of a job exists: its function may be running now or at the next tick.\<close>

definition has_jobs :: "service \<Rightarrow> bool" where
  "has_jobs p \<longleftrightarrow> (\<exists>th \<in> set (js_threads (sv_sched p)). snd th \<noteq> Ended)"

text \<open>A cluster whose process 0 is elected, told so, and has started its job.\<close>

definition demo_delivered :: "(string \<rightharpoonup> string \<times> int) election" where
  "demo_delivered = set_node demo_elected 0 (el_server demo_elected, send_done True (el_node demo_elected 0))"

definition demo_received :: "(string \<rightharpoonup> string \<times> int) election" where
  "demo_received = set_node demo_delivered 0 (el_server demo_delivered, (el_node demo_delivered 0)\<lparr>wd_watcher := []\<rparr>)"

definition demo_cluster :: "(string \<rightharpoonup> string \<times> int) election \<Rightarrow> service \<Rightarrow> (string \<rightharpoonup> string \<times> int) cluster" where
  "demo_cluster e p = \<lparr>cl_election = e,
     cl_service = (\<lambda>_. new_service (demo_env False) 1 [demo_cfg])(0 := p)\<rparr>"

definition demo_service :: service where
  "demo_service = new_service (demo_env False) 1 [demo_cfg]"

definition demo_busy :: service where
  "demo_busy = start_next (start_next (on_event TakenAcquire demo_service))"

section \<open>A step of one process\<close>

lemma ticks_ok_set_job: "(\<And>j. j_tick (f j) = j_tick j) \<Longrightarrow> ticks_ok (set_job n f s) = ticks_ok s"
  by (auto simp: ticks_ok_def set_job_def split: if_splits)

lemma ticks_ok_fields [simp]:
  "ticks_ok (s\<lparr>js_rate := r\<rparr>) = ticks_ok s" "ticks_ok (s\<lparr>js_fresh := f\<rparr>) = ticks_ok s"
  "ticks_ok (s\<lparr>js_ticks := t\<rparr>) = ticks_ok s" "ticks_ok (s\<lparr>js_ticking := t\<rparr>) = ticks_ok s"
  "ticks_ok (s\<lparr>js_env := e\<rparr>) = ticks_ok s" "ticks_ok (s\<lparr>js_started := b\<rparr>) = ticks_ok s"
  "ticks_ok (s\<lparr>js_threads := ts\<rparr>) = ticks_ok s" "ticks_ok (set_thread k p s) = ticks_ok s"
  by (simp_all add: ticks_ok_def)

lemma ticks_ok_work:
  assumes "work_step s s'"
  shows "ticks_ok s' = ticks_ok s"
  using assms
proof (cases rule: work_step.cases)
  case ws_thread
  then show ?thesis
    by (cases rule: thread_step.cases) (simp_all add: ticks_ok_set_job)
qed simp_all

lemma ticks_ok_start_job: "ticks_ok (fst (start_job ctx n s)) = ticks_ok s"
  by (auto simp: start_job_def ticks_ok_set_job split: option.splits)

lemma start_job_returns:
  assumes "base_inv s" and "ticks_ok s"
  shows "snd (start_job ctx n s) = Returns"
proof (cases "map_of (js_goroutines s) n")
  case (Some j)
  then have "\<not> j_rmu j" "0 < j_tick j"
    using assms map_of_SomeD [OF Some] by (force simp: base_inv_def ticks_ok_def)+
  with Some show ?thesis by (simp add: start_job_def)
qed (simp add: start_job_def)

lemma start_job_started: "js_started (fst (start_job ctx n s)) = js_started s"
  by (auto simp: start_job_def split: option.splits)

lemma seq_inv_mu: "seq_inv s \<Longrightarrow> \<not> js_mu s"
  by (simp add: seq_inv_def base_inv_def)

text \<open>The callbacks, called with the mutex free, get under way.\<close>

lemma service_inv_call_Stop:
  assumes "seq_inv (sv_sched p)" and "js_started (sv_sched p)" and "sv_Working p" and "ticks_ok (sv_sched p)"
  shows "service_inv (call_Stop b p)"
proof -
  obtain s1 where s1: "Stop_signal (sv_sched p) = (s1, Returns)" "stopping s1"
    using Stop_signal_stopping [OF assms(1,2)] by blast
  have "\<forall>(n, j) \<in> set (js_goroutines (sv_sched p)). j_ctx j \<noteq> None \<and> \<not> j_rmu j"
    using assms(1,2) by (auto simp: seq_inv_def base_inv_def ready_def)
  from cancel_jobs_ready [OF this] s1(1) assms(2) seq_inv_mu [OF assms(1)]
  have "js_goroutines s1 = js_goroutines (sv_sched p)" by (auto simp: Stop_signal_def)
  with s1 assms(3,4) show ?thesis by (simp add: call_Stop_def service_inv_def phase_inv_def ticks_ok_def)
qed

lemma service_inv_call_Start:
  assumes "seq_inv (sv_sched p)" and "\<not> js_started (sv_sched p)" and "\<not> sv_Working p" and "ticks_ok (sv_sched p)"
    and "sv_handled p \<noteq> []" and "last (sv_handled p) = TakenAcquire"
  shows "service_inv (call_Start p)"
proof -
  have b: "base_inv (sv_sched p)" "all_ended (sv_sched p)" using assms(1,2) by (simp_all add: seq_inv_def)
  have "distinct (map fst (js_goroutines (sv_sched p)))" using b(1) by (simp add: base_inv_def sched_inv_def)
  moreover have "m \<in> fst ` set (js_goroutines (sv_sched p))" if "map_of (js_goroutines (sv_sched p)) m = Some j" for m j
    using map_of_SomeD [OF that] by force
  ultimately show ?thesis
    using b assms seq_inv_mu [OF assms(1)]
    by (auto simp: call_Start_def start_begin_def service_inv_def phase_inv_def all_ended_def)
qed

lemma service_inv_on_event:
  assumes "service_inv p" and "sv_phase p = Free" and "sv_listening p" and "res = LostAcquire \<or> res = TakenAcquire"
  shows "service_inv (on_event res p)"
proof -
  let ?p = "p\<lparr>sv_handled := sv_handled p @ [res]\<rparr>"
  have s: "seq_inv (sv_sched p)" "ticks_ok (sv_sched p)" "js_started (sv_sched p) = sv_Working p"
    using assms(1-3) by (auto simp: service_inv_def phase_inv_def)
  consider "res = LostAcquire" "sv_Working p" | "res = TakenAcquire" "\<not> sv_Working p"
    | "res = LostAcquire" "\<not> sv_Working p" | "res = TakenAcquire" "sv_Working p"
    using assms(4) by blast
  then show ?thesis
  proof cases
    case 1
    with service_inv_call_Stop [of ?p True] s show ?thesis by (simp add: on_event_def)
  next
    case 2
    with service_inv_call_Start [of ?p] s show ?thesis by (simp add: on_event_def)
  qed (use assms s in \<open>auto simp: on_event_def service_inv_def phase_inv_def\<close>)
qed

lemma work_step_ready:
  assumes "work_step s s'" and "map_of (js_goroutines s') m = Some j'"
  shows "\<exists>j. map_of (js_goroutines s) m = Some j \<and> ready j = ready j'"
  using assms(1)
proof (cases rule: work_step.cases)
  case ws_thread
  then show ?thesis
    using assms(2) by (cases rule: thread_step.cases) (auto simp: map_of_set_job ready_def split: if_splits)
qed (use assms(2) in auto)

lemma phase_inv_work:
  assumes "work_step (sv_sched p) s" and "phase_inv p"
  shows "phase_inv (p\<lparr>sv_sched := s\<rparr>)"
proof (cases "sv_phase p")
  case (Starting ns)
  note w = work_step_base [OF assms(1)] work_step_started [OF assms(1)]
  have ended: "snd th = Ended" if "th \<in> set (js_threads s)" "fst th \<in> set ns" for th
  proof (cases "thread_step (sv_sched p) s")
    case True
    then obtain k n q r where m: "moves (sv_sched p) k n q r s" using thread_step_moves by blast
    then have "n \<notin> set ns"
      using assms(2) Starting by (auto simp: moves_def thread_at_def phase_inv_def dest!: nth_mem)
    with m that have "th \<in> set (js_threads (sv_sched p))"
      by (auto simp: moves_def set_thread_def thread_at_def dest!: subsetD [OF set_update_subset_insert])
    with that(2) assms(2) Starting show ?thesis by (auto simp: phase_inv_def)
  next
    case False
    with assms(1) have "js_threads s = js_threads (sv_sched p)" by (auto elim!: work_step.cases)
    with that assms(2) Starting show ?thesis by (auto simp: phase_inv_def)
  qed
  have "m \<in> set ns \<or> ready j" if "map_of (js_goroutines s) m = Some j" for m j
    using work_step_ready [OF assms(1) that] assms(2) Starting by (auto simp: phase_inv_def)
  with assms(2) w ended Starting show ?thesis by (simp add: phase_inv_def)
qed (use assms seq_inv_work [OF assms(1)] stopping_step [OF assms(1)] work_step_started [OF assms(1)]
    in \<open>auto simp: phase_inv_def\<close>)

lemma service_inv_start_next:
  assumes "service_inv p"
  shows "service_inv (start_next p)"
proof (cases "sv_phase p")
  case (Starting ns)
  show ?thesis
  proof (cases ns)
    case Nil
    then have "\<forall>(n, j) \<in> set (js_goroutines (sv_sched p)). ready j"
      using assms Starting by (auto simp: service_inv_def phase_inv_def base_inv_def sched_inv_def)
    with Nil assms Starting show ?thesis by (simp add: start_next_def service_inv_def phase_inv_def seq_inv_def)
  next
    case (Cons n ns')
    have b: "base_inv (sv_sched p)" "ticks_ok (sv_sched p)" "n \<notin> set ns'" "distinct ns'"
      "\<forall>th \<in> set (js_threads (sv_sched p)). fst th \<in> set ns \<longrightarrow> snd th = Ended"
      using assms Starting Cons by (auto simp: service_inv_def phase_inv_def)
    obtain s where s: "start_job kernel_ctx n (sv_sched p) = (s, Returns)"
      using start_job_returns [OF b(1,2)] by (metis prod.collapse)
    have "base_inv s" and j: "\<forall>m j. map_of (js_goroutines s) m = Some j \<longrightarrow>
        ready j \<or> m \<noteq> n \<and> map_of (js_goroutines (sv_sched p)) m = Some j"
      using start_job_ready [OF s b(1)] b(5) Cons by auto
    moreover have "\<forall>th \<in> set (js_threads s). fst th \<in> set ns' \<longrightarrow> snd th = Ended"
      using start_job_others [OF s] b(3,5) Cons by auto
    moreover have "js_started s" "ticks_ok s"
      using start_job_started [of kernel_ctx n "sv_sched p"] ticks_ok_start_job [of kernel_ctx n "sv_sched p"] s assms Starting
      by (simp_all add: service_inv_def phase_inv_def)
    moreover have "\<forall>m j. map_of (js_goroutines s) m = Some j \<longrightarrow> m \<in> set ns' \<or> ready j"
      using j assms Starting Cons unfolding service_inv_def phase_inv_def by fastforce
    ultimately show ?thesis
      using assms Starting Cons s b(4) by (simp add: start_next_def service_inv_def phase_inv_def)
  qed
qed (use assms in \<open>simp_all add: start_next_def\<close>)

lemma service_inv_stop_done:
  assumes "service_inv p" and "Stop_waited (sv_sched p)"
  shows "service_inv (stop_done p)"
proof (cases "sv_phase p")
  case (Stopping b)
  with assms have "stopping (sv_sched p)" by (simp add: service_inv_def phase_inv_def)
  then have "seq_inv (sv_sched p)" "\<not> js_started (sv_sched p)"
    using Stop_waited_ended [OF _ assms(2)] by (auto simp: stopping_def seq_inv_def base_inv_def all_ended_def)
  with Stopping assms(1) show ?thesis by (simp add: stop_done_def service_inv_def phase_inv_def)
qed (use assms in \<open>simp_all add: stop_done_def\<close>)

lemma service_step_inv:
  assumes "service_step p p'" and "service_inv p"
  shows "service_inv p'"
  using assms(1)
proof (cases rule: service_step.cases)
  case (sv_work s)
  with assms(2) show ?thesis by (simp add: service_inv_def phase_inv_work ticks_ok_work)
next
  case sv_stop
  with assms(2) service_inv_call_Stop [of "p\<lparr>sv_cancelled := True\<rparr>" False] show ?thesis
    by (auto simp: kernel_stop_def Let_def service_inv_def phase_inv_def)
qed (use assms(2) service_inv_start_next service_inv_stop_done
    in \<open>auto simp: service_inv_def phase_inv_def leave_def leave_cancelled_def\<close>)

section \<open>A step of the cluster\<close>

lemma alternates_set: "alternates a b xs \<Longrightarrow> set xs \<subseteq> {a, b}"
  by (induction a b xs rule: alternates.induct) auto

lemma watcher_events:
  assumes "elect_inv e" and "wd_watcher (el_node e i) = ev # evs"
  shows "ev = LostAcquire \<or> ev = TakenAcquire"
proof -
  have n: "node_inv (el_node e i)" using assms(1) by (simp add: elect_inv_def)
  then obtain xs where xs: "subseq (wd_watcher (el_node e i)) xs" "set xs \<subseteq> set (wd_events (el_node e i))"
    by (auto simp: node_inv_def split: if_splits dest: in_set_butlastD)
  from list_emb_set [OF xs(1), of ev] xs(2) assms(2) have "ev \<in> set (wd_events (el_node e i))" by auto
  with n alternates_set show ?thesis by (fastforce simp: node_inv_def)
qed

lemma on_tick_events:
  assumes "in_loop w"
  shows "wd_watcher (snd (on_tick n cfg v (s, w))) = wd_watcher w"
    and "wd_events (snd (on_tick n cfg v (s, w))) = wd_events w @ pending_event (snd (on_tick n cfg v (s, w)))"
  using assms by (auto simp: on_tick_def try_lock_def send_def pending_event_def in_loop_def split: prod.splits)

lemma send_done_events:
  "wd_watcher (send_done True w) @ pending_event (send_done True w) = wd_watcher w @ pending_event w \<and>
   wd_events (send_done d w) = wd_events w"
  by (auto simp: send_done_def pending_event_def split: option.splits)

lemma in_loop_pending: "in_loop w \<Longrightarrow> pending_event w = []"
  by (simp add: in_loop_def pending_event_def)

lemma events_inv_election:
  assumes "elect_step cfg val (cl_election c) e" and "events_inv c"
    and "\<And>i. length (wd_watcher (el_node (cl_election c) i)) \<le> length (wd_watcher (el_node e i))"
  shows "events_inv (c\<lparr>cl_election := e\<rparr>)"
  using assms(1)
proof (cases rule: elect_step.cases)
  case (el_tick i n)
  then show ?thesis
    using assms(2) on_tick_events [of "el_node (cl_election c) i" n cfg "val i" "el_server (cl_election c)"]
    by (auto simp: events_inv_def set_node_def in_loop_pending)
next
  case (el_deliver i)
  then show ?thesis
    using assms(2) send_done_events [of "el_node (cl_election c) i" True]
    by (auto simp: events_inv_def set_node_def)
next
  case (el_receive i ev evs)
  with assms(3) [of i] show ?thesis by (simp add: set_node_def)
qed (use assms(2) in \<open>auto simp: events_inv_def set_node_def\<close>)

lemma on_event_handled: "sv_handled (on_event ev p) = sv_handled p @ [ev]"
  by (auto simp: on_event_def call_Stop_def call_Start_def Let_def split: prod.splits api_end.splits)

lemma service_step_handled: "service_step p p' \<Longrightarrow> sv_handled p' = sv_handled p"
  by (auto elim!: service_step.cases simp: start_next_def stop_done_def kernel_stop_def call_Stop_def leave_def
      leave_cancelled_def Let_def split: phase.splits list.splits prod.splits api_end.splits)

lemma service_inv_leave:
  assumes "service_inv p"
  shows "service_inv (leave p)"
  using assms by (auto simp: service_inv_def phase_inv_def leave_def split: phase.splits)

lemma service_inv_kernel_cancel:
  assumes "service_inv p"
  shows "service_inv (kernel_cancel p)"
proof -
  let ?s = "sv_sched p"
  let ?e = "(js_env ?s)\<lparr>env_cancelled := insert 0 (env_cancelled (js_env ?s))\<rparr>"
  have "work_step ?s (?s\<lparr>js_env := ?e\<rparr>)" by (rule ws_env) auto
  then have "service_step p (p\<lparr>sv_sched := ?s\<lparr>js_env := ?e\<rparr>\<rparr>)" by (rule sv_work)
  from service_step_inv [OF this assms] show ?thesis
    by (simp add: kernel_cancel_def service_inv_def phase_inv_def split: phase.splits)
qed

lemma cluster_step_inv:
  assumes "cluster_step estep c c'" and "cluster_inv c"
    and es: "\<And>e e'. estep e e' \<Longrightarrow> elect_step cfg val e e'"
  shows "cluster_inv c'"
  using assms(1)
proof (cases rule: cluster_step.cases)
  case (cs_election e)
  then show ?thesis
    using assms(2) elect_step_inv [OF es] events_inv_election [OF es] by (auto simp: cluster_inv_def)
next
  case (cs_receive i ev evs e)
  have "service_inv (on_event ev (cl_service c i))"
    using cs_receive assms(2) watcher_events [OF _ cs_receive(4)]
    by (intro service_inv_on_event) (auto simp: cluster_inv_def)
  moreover have "elect_inv e" using elect_step_inv [OF es [OF cs_receive(6)]] assms(2) by (simp add: cluster_inv_def)
  ultimately show ?thesis
    using cs_receive assms(2)
    by (auto simp: cluster_inv_def set_service_def events_inv_def on_event_handled set_node_def pending_event_def)
next
  case (cs_service i p)
  then show ?thesis
    using assms(2) service_step_inv [OF cs_service(2)] service_step_handled [OF cs_service(2)]
    by (auto simp: cluster_inv_def set_service_def events_inv_def)
next
  case (cs_cancel e i)
  have "elect_inv e" using elect_step_inv [OF es [OF cs_cancel(3)]] assms(2) by (simp add: cluster_inv_def)
  with cs_cancel assms(2) show ?thesis
    by (auto simp: cluster_inv_def set_service_def events_inv_def intro: service_inv_kernel_cancel)
next
  case (cs_closed i)
  then have "service_inv (leave (cl_service c i))" "sv_handled (leave (cl_service c i)) = sv_handled (cl_service c i)"
    using assms(2) by (simp_all add: cluster_inv_def service_inv_leave) (simp add: leave_def)
  with cs_closed assms(2) show ?thesis by (auto simp: cluster_inv_def set_service_def events_inv_def)
qed

lemma new_service_inv:
  assumes "\<forall>cfg \<in> set jobs. 0 < Tick cfg"
  shows "service_inv (new_service env rate jobs)"
proof -
  have "seq_inv (fold (\<lambda>cfg s. fst (Add cfg s)) jobs s) \<and> ticks_ok (fold (\<lambda>cfg s. fst (Add cfg s)) jobs s) \<and>
      \<not> js_started (fold (\<lambda>cfg s. fst (Add cfg s)) jobs s)"
    if "seq_inv s" "ticks_ok s" "\<not> js_started s" for s
    using that assms
  proof (induction jobs arbitrary: s)
    case (Cons cfg jobs)
    have "ticks_ok (fst (Add cfg s))" "\<not> js_started (fst (Add cfg s))"
      using Cons.prems by (auto simp: Add_def ticks_ok_def)
    with Cons seq_inv_Add [of s cfg] show ?case by simp
  qed simp
  moreover have "seq_inv (NewJobScheduler env 1 rate)"
    by (rule client.inv_init) (auto simp: sched_init_def)
  moreover have "ticks_ok (NewJobScheduler env 1 rate)" "\<not> js_started (NewJobScheduler env 1 rate)"
    by (simp_all add: NewJobScheduler_def ticks_ok_def Let_def)
  ultimately show ?thesis by (simp add: new_service_def service_inv_def phase_inv_def)
qed

lemma cluster_init_inv:
  assumes init: "cluster_init c"
  shows "cluster_inv c"
proof -
  from init have "elect_inv (cl_election c)" by (auto simp: cluster_init_def intro: election.inv_init)
  moreover have "service_inv (cl_service c i) \<and> sv_handled (cl_service c i) = []" for i
  proof -
    obtain env rate jobs where "\<forall>cfg \<in> set jobs. 0 < Tick cfg" "cl_service c i = new_service env rate jobs"
      using init unfolding cluster_init_def by metis
    with new_service_inv [OF this(1)] show ?thesis by (simp add: new_service_def)
  qed
  moreover have "el_node (cl_election c) = (\<lambda>_. new_watchdog)" using init by (simp add: cluster_init_def elect_init_def)
  ultimately show ?thesis
    by (simp add: cluster_inv_def events_inv_def new_watchdog_def pending_event_def)
qed

interpretation service: inductive_invariant cluster_init "cluster_step (elect_step cfg val)" cluster_inv
  for cfg :: Config and val :: "nat \<Rightarrow> string"
  by unfold_locales (auto intro: cluster_init_inv cluster_step_inv)

interpretation timely_service: inductive_invariant cluster_init "cluster_step (timely_step cfg val)"
    "\<lambda>c. cluster_inv c \<and> reachable elect_init (timely_step cfg val) (cl_election c)"
  for cfg :: Config and val :: "nat \<Rightarrow> string"
proof
  show "cluster_init c \<Longrightarrow> cluster_inv c \<and> reachable elect_init (timely_step cfg val) (cl_election c)"
    for c :: "'r cluster"
    by (auto intro: cluster_init_inv reach_init simp: cluster_init_def)
  fix c c' :: "'r cluster"
  assume c: "cluster_inv c \<and> reachable elect_init (timely_step cfg val) (cl_election c)"
    and st: "cluster_step (timely_step cfg val) c c'"
  have "cluster_inv c'" using cluster_step_inv [OF st] c by (auto elim: timely_step.cases)
  moreover have "reachable elect_init (timely_step cfg val) (cl_election c')"
    using st c by (auto elim!: cluster_step.cases simp: set_service_def intro: reach_step)
  ultimately show "cluster_inv c' \<and> reachable elect_init (timely_step cfg val) (cl_election c')" ..
qed

lemma settled_jobs_leader:
  assumes "cluster_inv c" and "settled c i" and "has_jobs (cl_service c i)"
  shows "wd_isLeader (el_node (cl_election c) i)"
proof -
  have p: "phase_inv (cl_service c i)" and n: "node_inv (el_node (cl_election c) i)"
    and e: "wd_events (el_node (cl_election c) i) = sv_handled (cl_service c i)"
    using assms(1,2) by (auto simp: cluster_inv_def service_inv_def elect_inv_def events_inv_def settled_def pending_event_def)
  have "js_started (sv_sched (cl_service c i))"
    using p assms(2,3) by (auto simp: phase_inv_def settled_def seq_inv_def all_ended_def has_jobs_def split: if_splits)
  then have "sv_Working (cl_service c i)" using p assms(2) by (auto simp: phase_inv_def settled_def)
  with p assms(2) n e show ?thesis by (auto simp: phase_inv_def settled_def node_inv_def)
qed

section \<open>Properties\<close>


text \<open>
  The purpose of it all: as long as no lease runs out unnoticed, at most one process that has handled
  its events has job goroutines, and that process holds the lock.
\<close>

theorem one_process_runs_jobs:
  assumes "reachable cluster_init (cluster_step (timely_step cfg val)) c"
    and "inj val" and "Millisecond \<le> Expiration cfg"
    and "settled c i" and "has_jobs (cl_service c i)" and "settled c j" and "has_jobs (cl_service c j)"
  shows "j = i \<and> holder (el_server (cl_election c)) (ElectionName cfg) = Some (val i)"
proof -
  have inv: "cluster_inv c" and r: "reachable elect_init (timely_step cfg val) (cl_election c)"
    using timely_service.invariant [OF assms(1)] by auto
  have "leaders_hold cfg val (cl_election c)"
    using lease.invariant [OF r] assms(2,3) by (simp add: lease_inv_def)
  with settled_jobs_leader [OF inv assms(4,5)] settled_jobs_leader [OF inv assms(6,7)] assms(2)
  show ?thesis by (metis leaders_hold_def option.inject injD)
qed

lemma demo_cluster_steps:
  "timely_step demo_config demo_val demo_start demo_elected"
  "timely_step demo_config demo_val demo_elected demo_delivered"
  "timely_step demo_config demo_val demo_delivered demo_received"
proof -
  have h: "holder (el_server demo_elected) ''cron'' \<noteq> None"
    by (simp add: holder_def lock_view_def demo_election_defs)
  then have "lease_alive demo_config demo_elected" "lease_alive demo_config demo_delivered"
    "lease_alive demo_config demo_received"
    by (simp_all add: lease_alive_def demo_received_def demo_delivered_def set_node_def demo_config_def)
  moreover have "elect_step demo_config demo_val demo_elected demo_delivered"
    unfolding demo_delivered_def by (rule el_deliver) (simp_all add: demo_election_defs watcher_cap_def)
  moreover have "elect_step demo_config demo_val demo_delivered demo_received"
    unfolding demo_received_def
    by (rule el_receive [of _ _ TakenAcquire]) (simp add: demo_delivered_def demo_election_defs send_done_def)
  ultimately show "timely_step demo_config demo_val demo_start demo_elected"
    "timely_step demo_config demo_val demo_elected demo_delivered"
    "timely_step demo_config demo_val demo_delivered demo_received"
    using demo_elected_step by (auto intro: timely)
qed

text \<open>The run of the cluster: election, delivery, receipt, and the two steps of \<^verbatim>\<open>Start\<close>.\<close>

lemma demo_cluster_moves:
  fixes estep
  defines "estep \<equiv> timely_step demo_config demo_val"
  shows "cluster_init (demo_cluster demo_start demo_service)"
    and "cluster_step estep (demo_cluster demo_start demo_service) (demo_cluster demo_elected demo_service)"
    and "cluster_step estep (demo_cluster demo_elected demo_service) (demo_cluster demo_delivered demo_service)"
    and "cluster_step estep (demo_cluster demo_delivered demo_service)
      (demo_cluster demo_received (on_event TakenAcquire demo_service))"
    and "cluster_step estep (demo_cluster demo_received p) (demo_cluster demo_received (start_next p))"
proof -
  have upd: "demo_cluster e p\<lparr>cl_election := e'\<rparr> = demo_cluster e' p" "set_service (demo_cluster e p) 0 p' = demo_cluster e p'"
    "cl_election (demo_cluster e p) = e" "cl_service (demo_cluster e p) 0 = p" for e e' p p'
    by (simp_all add: demo_cluster_def set_service_def)
  show "cluster_init (demo_cluster demo_start demo_service)"
    by (auto simp: cluster_init_def elect_init_def demo_cluster_def demo_start_def demo_service_def
        demo_cfg_def Second_def intro!: exI [of _ "demo_env False"] exI [of _ 1] exI [of _ "[demo_cfg]"])
  show "cluster_step estep (demo_cluster demo_start demo_service) (demo_cluster demo_elected demo_service)"
    using cs_election [of estep "demo_cluster demo_start demo_service" demo_elected] demo_cluster_steps(1)
    by (simp add: upd estep_def) (simp add: demo_start_def new_watchdog_def)
  show "cluster_step estep (demo_cluster demo_elected demo_service) (demo_cluster demo_delivered demo_service)"
    using cs_election [of estep "demo_cluster demo_elected demo_service" demo_delivered] demo_cluster_steps(2)
    by (simp add: upd estep_def) (simp add: demo_delivered_def set_node_def send_done_def split: option.splits)
  show "cluster_step estep (demo_cluster demo_delivered demo_service)
      (demo_cluster demo_received (on_event TakenAcquire demo_service))"
    using cs_receive [of "demo_cluster demo_delivered demo_service" 0 TakenAcquire "[]" demo_received estep] demo_cluster_steps(3)
    by (simp add: upd estep_def demo_received_def)
      (simp add: demo_service_def new_service_def demo_delivered_def demo_election_defs send_done_def)
  show "cluster_step estep (demo_cluster demo_received p) (demo_cluster demo_received (start_next p))"
    using cs_service [of "demo_cluster demo_received p" 0, OF sv_start] by (simp add: upd)
qed

lemma demo_cluster_reachable:
  "reachable cluster_init (cluster_step (timely_step demo_config demo_val)) (demo_cluster demo_received demo_busy)"
  unfolding demo_busy_def
  by (rule reach_step [OF reach_step [OF reach_step [OF reach_step [OF reach_step [OF reach_init]]]]]) (rule demo_cluster_moves)+

lemma demo_cluster_settled:
  "settled (demo_cluster demo_received demo_busy) 0" "has_jobs (cl_service (demo_cluster demo_received demo_busy) 0)"
  by (simp_all add: settled_def has_jobs_def demo_cluster_def demo_received_def demo_delivered_def demo_busy_def
      demo_service_def new_service_def on_event_def call_Start_def start_begin_def start_next_def start_job_def
      demo_cfg_def Add_def NewJobScheduler_def set_job_def demo_election_defs send_done_def)

theorem one_process_runs_jobs_witness:
  "holder (el_server (cl_election (demo_cluster demo_received demo_busy))) ''cron'' = Some (demo_val 0)"
proof -
  have m: "Millisecond \<le> Expiration demo_config" by (simp add: demo_config_def Millisecond_def Second_def)
  from one_process_runs_jobs [OF demo_cluster_reachable inj_demo_val m demo_cluster_settled demo_cluster_settled]
  show ?thesis by (simp add: demo_config_def)
qed

lemma cluster_step_mono:
  assumes "cluster_step estep c c'" and "\<And>e e'. estep e e' \<Longrightarrow> estep' e e'"
  shows "cluster_step estep' c c'"
  using assms(1) by (cases rule: cluster_step.cases) (auto intro: cluster_step.intros assms(2))

lemma timely_cluster_reachable:
  "reachable cluster_init (cluster_step (timely_step cfg val)) c \<Longrightarrow>
     reachable cluster_init (cluster_step (elect_step cfg val)) c"
proof (induction rule: reachable.induct)
  case (reach_step c c')
  have "cluster_step (elect_step cfg val) c c'"
    using reach_step.hyps(2) by (rule cluster_step_mono) (auto elim: timely_step.cases)
  with reach_step.IH show ?case by (rule reachable.reach_step)
qed (rule reach_init)


end
