(* ===== verification/Timed_Election.thy ===== *)
theory Timed_Election
  imports Leader_Service
begin

text \<open>
  The election with clocks. \<open>Election\<close> shows that there is at most one leader as long as no lease runs out
  under one; here this is not assumed but proved, from the intervals of the code. Each process has a
  ticker with the interval \<^verbatim>\<open>renewIntervalJitter\<close> and handles a tick at most \<open>late\<close> after it is due (delays
  of the ticker, the network and the event channel together). The theories below are reached by
  simulation: a timed run is a run in which no lease runs out under a leader.
\<close>

section \<open>Clocks\<close>

text \<open>\<open>tm_age i\<close>: milliseconds since process \<open>i\<close> last handled a tick.\<close>

record 'r timed =
  tm_election :: "'r election"
  tm_age :: "nat \<Rightarrow> int"

text \<open>The longest time between two ticks process \<open>i\<close> handles; \<open>rnd i\<close> is the random number of its \<^verbatim>\<open>Elect\<close>.\<close>

definition tick_bound :: "Config \<Rightarrow> (nat \<Rightarrow> int) \<Rightarrow> duration \<Rightarrow> nat \<Rightarrow> duration" where
  "tick_bound cfg rnd late i =
     (case renewIntervalJitter (rnd i) cfg of Panic _ \<Rightarrow> 0 | Return r \<Rightarrow> r + late)"

text \<open>
  The values are different, the lease is at least fifteen milliseconds long, and ticks are handled with a
  delay of at most half the lease.
\<close>

definition well_timed :: "Config \<Rightarrow> (nat \<Rightarrow> string) \<Rightarrow> duration \<Rightarrow> bool" where
  "well_timed cfg val late \<longleftrightarrow> inj val \<and> 15 * Millisecond \<le> Expiration cfg \<and> 2 * late \<le> Expiration cfg"

text \<open>
  The steps that take no time and are not ticks; a tick, which starts the clock of its process again; and
  time, which may pass as long as no leader gets over its bound. Followers may be as slow as they like.
\<close>

inductive quiet_step :: "Config \<Rightarrow> (nat \<Rightarrow> string) \<Rightarrow> 'r election \<Rightarrow> 'r election \<Rightarrow> bool"
  for cfg :: Config and val :: "nat \<Rightarrow> string" where
  qs_done: "in_loop (el_node e i) \<Longrightarrow> el_ctx_done e i \<Longrightarrow>
    quiet_step cfg val e (set_node e i (on_done n cfg (val i) (el_server e, el_node e i)))"
| qs_deliver: "wd_pending (el_node e i) \<noteq> None \<Longrightarrow> length (wd_watcher (el_node e i)) < watcher_cap \<Longrightarrow>
    quiet_step cfg val e (set_node e i (el_server e, send_done True (el_node e i)))"
| qs_drop: "wd_pending (el_node e i) \<noteq> None \<Longrightarrow> el_ctx_done e i \<Longrightarrow>
    quiet_step cfg val e (set_node e i (el_server e, send_done False (el_node e i)))"
| qs_receive: "wd_watcher (el_node e i) = ev # evs \<Longrightarrow>
    quiet_step cfg val e (set_node e i (el_server e, (el_node e i)\<lparr>wd_watcher := evs\<rparr>))"
| qs_cancel: "quiet_step cfg val e (e\<lparr>el_ctx_done := (el_ctx_done e)(i := True)\<rparr>)"

inductive timed_step :: "Config \<Rightarrow> (nat \<Rightarrow> string) \<Rightarrow> (nat \<Rightarrow> int) \<Rightarrow> duration \<Rightarrow> 'r timed \<Rightarrow> 'r timed \<Rightarrow> bool"
  for cfg :: Config and val :: "nat \<Rightarrow> string" and rnd :: "nat \<Rightarrow> int" and late :: duration where
  tm_tick: "in_loop (el_node (tm_election t) i) \<Longrightarrow>
    timed_step cfg val rnd late t
      (t\<lparr>tm_election := set_node (tm_election t) i
           (on_tick n cfg (val i) (el_server (tm_election t), el_node (tm_election t) i)),
         tm_age := (tm_age t)(i := 0)\<rparr>)"
| tm_quiet: "quiet_step cfg val (tm_election t) e \<Longrightarrow>
    timed_step cfg val rnd late t (t\<lparr>tm_election := e\<rparr>)"
| tm_time: "0 \<le> d \<Longrightarrow>
    (\<And>i. wd_isLeader (el_node (tm_election t) i) \<Longrightarrow>
       (tm_age t i + d) * Millisecond \<le> tick_bound cfg rnd late i) \<Longrightarrow>
    timed_step cfg val rnd late t
      (t\<lparr>tm_election := (tm_election t)\<lparr>el_server := srv_advance (el_server (tm_election t)) d\<rparr>,
         tm_age := (\<lambda>i. tm_age t i + d)\<rparr>)"

definition timed_init :: "Config \<Rightarrow> (nat \<Rightarrow> string) \<Rightarrow> duration \<Rightarrow> 'r timed \<Rightarrow> bool" where
  "timed_init cfg val late t \<longleftrightarrow> well_timed cfg val late \<and> elect_init (tm_election t)"

text \<open>What is left of a leader's lease and the age of its last tick make up a full lease.\<close>

definition lease_left :: "Config \<Rightarrow> (nat \<Rightarrow> string) \<Rightarrow> 'r timed \<Rightarrow> nat \<Rightarrow> bool" where
  "lease_left cfg val t i \<longleftrightarrow>
     (\<exists>ttl. lock_view (el_server (tm_election t)) (ElectionName cfg) = Some (val i, ttl) \<and>
        Milliseconds (Expiration cfg) \<le> ttl + tm_age t i)"

definition timed_inv :: "Config \<Rightarrow> (nat \<Rightarrow> string) \<Rightarrow> duration \<Rightarrow> 'r timed \<Rightarrow> bool" where
  "timed_inv cfg val late t \<longleftrightarrow> well_timed cfg val late \<and> srv_invar (el_server (tm_election t)) \<and>
     (\<forall>i. wd_isLeader (el_node (tm_election t) i) \<longrightarrow> lease_left cfg val t i)"

section \<open>One step\<close>

text \<open>The interval of the code, the delay and the server's resolution fit into the lease.\<close>

lemma tick_bound_lease:
  assumes "well_timed cfg val late"
  shows "tick_bound cfg rnd late i < Milliseconds (Expiration cfg) * Millisecond"
proof -
  have e: "15 * Millisecond \<le> Expiration cfg" "2 * late \<le> Expiration cfg" using assms by (simp_all add: well_timed_def)
  then have "10 \<le> Expiration cfg" by (simp add: Millisecond_def)
  then obtain r where r: "renewIntervalJitter (rnd i) cfg = Return r" "30 * r < 13 * Expiration cfg"
    using renewIntervalJitter_bounds [of cfg "rnd i"] by metis
  have "Expiration cfg - Millisecond < Milliseconds (Expiration cfg) * Millisecond"
    using e(1) by (simp add: Milliseconds_def Millisecond_def go_div_nonneg)
  moreover have "tick_bound cfg rnd late i = r + late" using r(1) by (simp add: tick_bound_def)
  ultimately show ?thesis using e r(2) by linarith
qed

lemma quiet_step_elect: "quiet_step cfg val e e' \<Longrightarrow> elect_step cfg val e e'"
  by (induction rule: quiet_step.induct) (auto intro: elect_step.intros)

lemma timed_step_elect:
  "timed_step cfg val rnd late t t' \<Longrightarrow> elect_step cfg val (tm_election t) (tm_election t')"
  by (induction rule: timed_step.induct) (auto intro: elect_step.intros quiet_step_elect)

lemma ExtendLockTTL_ok:
  assumes "srv_invar s" and "ExtendLockTTL n s key val d = (s', True, e)" and "0 < Milliseconds d"
  shows "lock_view s' = (lock_view s)(key \<mapsto> (val, Milliseconds d))"
proof -
  obtain s1 r where x: "extendTTLScript s (lockKeyPrefix @ key) val (Milliseconds d) = (s1, r)" by fastforce
  from extendTTLScript_view [OF assms(1) x] assms(2,3) x show ?thesis
    by (auto simp: ExtendLockTTL_def Eval_def eval_result_def split: net.splits if_splits)
qed

text \<open>A tick leaves the lock of another process alone, and a process that is leader after it has a full lease.\<close>

lemma on_tick_view:
  assumes "srv_invar s" and "0 < Milliseconds (Expiration cfg)" and "on_tick n cfg v (s, w) = (s', w')"
  shows "srv_invar s'"
    and "lock_view s (ElectionName cfg) = Some (u, ttl) \<Longrightarrow> u \<noteq> v \<Longrightarrow> lock_view s' (ElectionName cfg) = Some (u, ttl)"
    and "wd_isLeader w' \<Longrightarrow> lock_view s' (ElectionName cfg) = Some (v, Milliseconds (Expiration cfg))"
proof -
  obtain s1 ok1 e1 where l: "Lock n s (ElectionName cfg) v (Expiration cfg) = (s1, ok1, e1)" using prod_cases3 by blast
  obtain s2 ok2 e2 where x: "ExtendLockTTL n s (ElectionName cfg) v (Expiration cfg) = (s2, ok2, e2)"
    using prod_cases3 by blast
  note lv = Lock_view [OF assms(1) l] and xv = ExtendLockTTL_view [OF assms(1) x]
  show "srv_invar s'" using assms(3) l x lv(1) xv(1) by (auto simp: on_tick_def try_lock_def split: if_splits)
  show "lock_view s (ElectionName cfg) = Some (u, ttl) \<Longrightarrow> u \<noteq> v \<Longrightarrow> lock_view s' (ElectionName cfg) = Some (u, ttl)"
    using assms(3) l x lv(2) xv(2) by (auto simp: on_tick_def try_lock_def holder_def split: if_splits)
  show "wd_isLeader w' \<Longrightarrow> lock_view s' (ElectionName cfg) = Some (v, Milliseconds (Expiration cfg))"
    using assms(3) l x lv(3) ExtendLockTTL_ok [OF assms(1), of n _ v _ s2 e2] assms(2)
    by (auto simp: on_tick_def try_lock_def send_def split: if_splits)
qed

lemma on_done_view:
  assumes "srv_invar s" and "on_done n cfg v (s, w) = (s', w')"
  shows "srv_invar s'" and "\<not> wd_isLeader w'"
    and "lock_view s (ElectionName cfg) = Some (u, ttl) \<Longrightarrow> u \<noteq> v \<Longrightarrow> lock_view s' (ElectionName cfg) = Some (u, ttl)"
proof -
  obtain s1 ok1 e1 where u: "Unlock n s (ElectionName cfg) v = (s1, ok1, e1)" using prod_cases3 by blast
  note uv = Unlock_view [OF assms(1) u]
  show "srv_invar s'" "\<not> wd_isLeader w'" "lock_view s (ElectionName cfg) = Some (u, ttl) \<Longrightarrow> u \<noteq> v \<Longrightarrow> lock_view s' (ElectionName cfg) = Some (u, ttl)"
    using assms u uv(1,2) by (auto simp: on_done_def send_def holder_def split: if_splits)
qed

text \<open>Process \<open>i\<close> does something at the server: the other leaders keep what is left of their leases.\<close>

lemma timed_inv_set_node:
  assumes "timed_inv cfg val late t" and "srv_invar s'"
    and "\<And>u ttl. lock_view (el_server (tm_election t)) (ElectionName cfg) = Some (u, ttl) \<Longrightarrow> u \<noteq> val i \<Longrightarrow>
      lock_view s' (ElectionName cfg) = Some (u, ttl)"
    and "wd_isLeader w' \<Longrightarrow> lock_view s' (ElectionName cfg) = Some (val i, Milliseconds (Expiration cfg))"
    and "0 \<le> a i" and "\<And>j. j \<noteq> i \<Longrightarrow> a j = tm_age t j"
  shows "timed_inv cfg val late (t\<lparr>tm_election := set_node (tm_election t) i (s', w'), tm_age := a\<rparr>)"
proof -
  have inj: "inj val" using assms(1) by (simp add: timed_inv_def well_timed_def)
  have "lease_left cfg val (t\<lparr>tm_election := set_node (tm_election t) i (s', w'), tm_age := a\<rparr>) j"
    if "wd_isLeader (el_node (set_node (tm_election t) i (s', w')) j)" for j
  proof (cases "j = i")
    case True
    with that assms(4,5) show ?thesis by (simp add: lease_left_def set_node_def)
  next
    case False
    with that assms(1) have "lease_left cfg val t j" by (simp add: timed_inv_def set_node_def)
    moreover have "val j \<noteq> val i" using False inj by (auto dest: injD)
    ultimately show ?thesis using assms(3,6) False by (force simp: lease_left_def set_node_def)
  qed
  with assms(1,2) show ?thesis by (simp add: timed_inv_def set_node_def)
qed

lemma well_timed_ms: "well_timed cfg val late \<Longrightarrow> 0 < Milliseconds (Expiration cfg)"
  by (rule Milliseconds_ge_1) (simp add: well_timed_def Millisecond_def)

text \<open>Time: a leader within its bound still has its lock.\<close>

lemma lease_left_advance:
  assumes "srv_invar (el_server (tm_election t))" and "lease_left cfg val t i" and "well_timed cfg val late"
    and "(tm_age t i + d) * Millisecond \<le> tick_bound cfg rnd late i" and "0 \<le> d"
  shows "lease_left cfg val
    (t\<lparr>tm_election := (tm_election t)\<lparr>el_server := srv_advance (el_server (tm_election t)) d\<rparr>, tm_age := (\<lambda>i. tm_age t i + d)\<rparr>) i"
proof -
  from assms(2) obtain ttl where ttl: "lock_view (el_server (tm_election t)) (ElectionName cfg) = Some (val i, ttl)"
    "Milliseconds (Expiration cfg) \<le> ttl + tm_age t i" by (auto simp: lease_left_def)
  have "(tm_age t i + d) * Millisecond < Milliseconds (Expiration cfg) * Millisecond"
    using assms(4) tick_bound_lease [OF assms(3), of rnd i] by linarith
  then have "tm_age t i + d < Milliseconds (Expiration cfg)" by (simp add: Millisecond_def)
  with ttl(2) have "d < ttl" by linarith
  with ttl assms(1,5) show ?thesis by (simp add: lease_left_def srv_advance_view)
qed

lemma timed_inv_quiet:
  assumes "quiet_step cfg val (tm_election t) e" and "timed_inv cfg val late t"
  shows "timed_inv cfg val late (t\<lparr>tm_election := e\<rparr>)"
  using assms(1)
proof (cases rule: quiet_step.cases)
  case (qs_done i n)
  obtain s' w' where d: "on_done n cfg (val i) (el_server (tm_election t), el_node (tm_election t) i) = (s', w')" by fastforce
  have "srv_invar (el_server (tm_election t))" using assms(2) by (simp add: timed_inv_def)
  note v = on_done_view [OF this d]
  have "timed_inv cfg val late (t\<lparr>tm_election := set_node (tm_election t) i (s', w'), tm_age := (tm_age t)(i := 0)\<rparr>)"
    by (rule timed_inv_set_node [OF assms(2)]) (use v in auto)
  with qs_done d v(2) show ?thesis by (auto simp: timed_inv_def lease_left_def set_node_def split: if_splits)
qed (use assms(2) in \<open>auto simp: timed_inv_def lease_left_def set_node_def send_done_def split: if_splits option.splits\<close>)

lemma timed_step_inv:
  assumes "timed_inv cfg val late t" and "timed_step cfg val rnd late t t'"
  shows "timed_inv cfg val late t'"
  using assms(2)
proof (cases rule: timed_step.cases)
  case (tm_tick i n)
  obtain s' w' where o: "on_tick n cfg (val i) (el_server (tm_election t), el_node (tm_election t) i) = (s', w')" by fastforce
  have "srv_invar (el_server (tm_election t))" "0 < Milliseconds (Expiration cfg)"
    using assms(1) by (auto simp: timed_inv_def well_timed_ms)
  note v = on_tick_view [OF this o]
  show ?thesis unfolding tm_tick o by (rule timed_inv_set_node [OF assms(1)]) (use v in auto)
next
  case (tm_quiet e)
  with assms(1) show ?thesis by (simp add: timed_inv_quiet)
next
  case (tm_time d)
  have i: "well_timed cfg val late" "srv_invar (el_server (tm_election t))"
    "\<And>i. wd_isLeader (el_node (tm_election t) i) \<Longrightarrow> lease_left cfg val t i"
    using assms(1) by (simp_all add: timed_inv_def)
  have "lease_left cfg val t' j" if "wd_isLeader (el_node (tm_election t) j)" for j
    unfolding tm_time(1) by (rule lease_left_advance [OF i(2) i(3) [OF that] i(1) tm_time(3) [OF that] tm_time(2)])
  moreover have "el_node (tm_election t') = el_node (tm_election t)" "srv_invar (el_server (tm_election t'))"
    using srv_advance_invar [OF i(2), of d] by (simp_all add: tm_time(1))
  ultimately show ?thesis using i(1) unfolding timed_inv_def by metis
qed

text \<open>In a state with the invariant no lease has run out under a leader.\<close>

lemma timed_inv_alive: "timed_inv cfg val late t \<Longrightarrow> lease_alive cfg (tm_election t)"
  unfolding lease_alive_def
proof (intro allI impI)
  fix i
  assume "timed_inv cfg val late t" and "wd_isLeader (el_node (tm_election t) i)"
  then have "lease_left cfg val t i" by (simp add: timed_inv_def)
  then show "holder (el_server (tm_election t)) (ElectionName cfg) \<noteq> None" by (auto simp: lease_left_def holder_def)
qed

interpretation clocks: simulation "timed_init cfg val late" "timed_step cfg val rnd late" "timed_inv cfg val late"
    tm_election elect_init "timely_step cfg val"
  for cfg :: Config and val :: "nat \<Rightarrow> string" and rnd :: "nat \<Rightarrow> int" and late :: duration
proof
  show "timed_init cfg val late s \<Longrightarrow> timed_inv cfg val late s \<and> elect_init (tm_election s)" for s :: "'r timed"
    by (simp add: timed_init_def timed_inv_def elect_init_def new_watchdog_def)
  show "timed_inv cfg val late t \<and> (timely_step cfg val (tm_election s) (tm_election t) \<or> tm_election t = tm_election s)"
    if "timed_inv cfg val late s" "timed_step cfg val rnd late s t" for s t :: "'r timed"
    using timed_step_inv [OF that] timed_step_elect [OF that(2)] by (auto intro: timely timed_inv_alive)
qed

section \<open>The cluster with clocks\<close>

text \<open>
  A step of the cluster whose election makes a timed step, or one that leaves the election alone: then
  the clocks stand still.
\<close>

inductive timed_cluster_step ::
    "Config \<Rightarrow> (nat \<Rightarrow> string) \<Rightarrow> (nat \<Rightarrow> int) \<Rightarrow> duration \<Rightarrow> 'r cluster \<times> (nat \<Rightarrow> int) \<Rightarrow> 'r cluster \<times> (nat \<Rightarrow> int) \<Rightarrow> bool"
  for cfg :: Config and val :: "nat \<Rightarrow> string" and rnd :: "nat \<Rightarrow> int" and late :: duration where
  tc_election: "cluster_step (elect_step cfg val) c c' \<Longrightarrow>
    timed_step cfg val rnd late \<lparr>tm_election = cl_election c, tm_age = a\<rparr> \<lparr>tm_election = cl_election c', tm_age = a'\<rparr> \<Longrightarrow>
    timed_cluster_step cfg val rnd late (c, a) (c', a')"
| tc_process: "cluster_step (elect_step cfg val) c c' \<Longrightarrow> cl_election c' = cl_election c \<Longrightarrow>
    timed_cluster_step cfg val rnd late (c, a) (c', a)"

definition timed_cluster_init :: "Config \<Rightarrow> (nat \<Rightarrow> string) \<Rightarrow> duration \<Rightarrow> 'r cluster \<times> (nat \<Rightarrow> int) \<Rightarrow> bool" where
  "timed_cluster_init cfg val late ca \<longleftrightarrow> well_timed cfg val late \<and> cluster_init (fst ca)"

definition timed_cluster_inv :: "Config \<Rightarrow> (nat \<Rightarrow> string) \<Rightarrow> duration \<Rightarrow> 'r cluster \<times> (nat \<Rightarrow> int) \<Rightarrow> bool" where
  "timed_cluster_inv cfg val late ca \<longleftrightarrow> timed_inv cfg val late \<lparr>tm_election = cl_election (fst ca), tm_age = snd ca\<rparr>"

text \<open>The election's part of a step may be replaced by any relation that holds between the same elections.\<close>

lemma cluster_step_election:
  assumes "cluster_step estep c c'" and "estep' (cl_election c) (cl_election c')"
  shows "cluster_step estep' c c'"
  using assms(1)
proof (cases rule: cluster_step.cases)
  case (cs_election e)
  with assms(2) show ?thesis by (auto intro: cluster_step.cs_election)
next
  case (cs_receive i ev evs e)
  then have "estep' (cl_election c) e" using assms(2) by (simp add: set_service_def)
  then show ?thesis unfolding cs_receive(1) by (rule cluster_step.cs_receive [OF cs_receive(2-5)])
next
  case (cs_cancel e i)
  then have "estep' (cl_election c) e" using assms(2) by (simp add: set_service_def)
  then show ?thesis unfolding cs_cancel(1) by (rule cluster_step.cs_cancel [OF cs_cancel(2)])
qed (auto intro: cluster_step.intros)

lemma cluster_step_part:
  assumes "cluster_step estep c c'"
  shows "estep (cl_election c) (cl_election c') \<or> cluster_step estep' c c'"
  using assms by (cases rule: cluster_step.cases) (auto simp: set_service_def intro: cluster_step.cs_closed [unfolded set_service_def]
      cluster_step.cs_service [unfolded set_service_def])

interpretation cluster_clocks: simulation "timed_cluster_init cfg val late" "timed_cluster_step cfg val rnd late"
    "timed_cluster_inv cfg val late" fst cluster_init "cluster_step (timely_step cfg val)"
  for cfg :: Config and val :: "nat \<Rightarrow> string" and rnd :: "nat \<Rightarrow> int" and late :: duration
proof
  show "timed_cluster_init cfg val late ca \<Longrightarrow> timed_cluster_inv cfg val late ca \<and> cluster_init (fst ca)"
    for ca :: "'r cluster \<times> (nat \<Rightarrow> int)"
    by (auto simp: timed_cluster_init_def timed_cluster_inv_def timed_inv_def cluster_init_def elect_init_def new_watchdog_def)
  fix ca ca' :: "'r cluster \<times> (nat \<Rightarrow> int)"
  assume inv: "timed_cluster_inv cfg val late ca" and "timed_cluster_step cfg val rnd late ca ca'"
  from this(2) show "timed_cluster_inv cfg val late ca' \<and>
    (cluster_step (timely_step cfg val) (fst ca) (fst ca') \<or> fst ca' = fst ca)"
  proof (cases rule: timed_cluster_step.cases)
    case (tc_election c c' a a')
    with inv have i: "timed_inv cfg val late \<lparr>tm_election = cl_election c', tm_age = a'\<rparr>"
      by (auto simp: timed_cluster_inv_def intro: timed_step_inv)
    have "timely_step cfg val (cl_election c) (cl_election c')"
      using timed_step_elect [OF tc_election(4)] timed_inv_alive [OF i] by (auto intro: timely)
    with tc_election i show ?thesis by (auto simp: timed_cluster_inv_def intro: cluster_step_election)
  next
    case (tc_process c c' a)
    have i: "timed_inv cfg val late \<lparr>tm_election = cl_election c, tm_age = a\<rparr>"
      using inv tc_process by (simp add: timed_cluster_inv_def)
    have "lease_alive cfg (cl_election c')" using timed_inv_alive [OF i] tc_process(4) by simp
    with cluster_step_part [OF tc_process(3)] have "cluster_step (timely_step cfg val) c c'"
      using cluster_step_election [OF tc_process(3)] by (blast intro: timely)
    with tc_process i show ?thesis by (simp add: timed_cluster_inv_def)
  qed
qed

section \<open>Properties\<close>

text \<open>
  C4. At most one leader, from the intervals of the code: with a lease of at least fifteen milliseconds
  and ticks handled within half a lease of being due, in every state the election can reach, whatever
  messages are lost and however slow the followers are, a leader holds the lock and no other process
  is a leader.
\<close>

theorem timed_at_most_one_leader:
  assumes "reachable (timed_init cfg val late) (timed_step cfg val rnd late) t"
    and "wd_isLeader (el_node (tm_election t) i)"
  shows "holder (el_server (tm_election t)) (ElectionName cfg) = Some (val i) \<and>
    (wd_isLeader (el_node (tm_election t) j) \<longrightarrow> j = i)"
proof -
  from clocks.simulates [OF assms(1)] have "well_timed cfg val late"
    and r: "reachable elect_init (timely_step cfg val) (tm_election t)"
    by (simp_all add: timed_inv_def)
  then have v: "inj val" "Millisecond \<le> Expiration cfg" by (simp_all add: well_timed_def Millisecond_def)
  with lease.invariant [OF r] have "leaders_hold cfg val (tm_election t)" by (simp add: lease_inv_def)
  with assms(2) v(1) show ?thesis by (metis leaders_hold_def option.inject injD)
qed

text \<open>
  C1. Jobs run on one process at most, from the intervals of the code: under the same timing, in every state
  the cluster of watchdogs, supervisors, kernels and schedulers can reach, two processes that have handled
  their events and have job goroutines are the same process, and it holds the lock.
\<close>

theorem timed_one_process_runs_jobs:
  assumes "reachable (timed_cluster_init cfg val late) (timed_cluster_step cfg val rnd late) (c, a)"
    and "settled c i" and "has_jobs (cl_service c i)" and "settled c j" and "has_jobs (cl_service c j)"
  shows "j = i \<and> holder (el_server (cl_election c)) (ElectionName cfg) = Some (val i)"
proof -
  from cluster_clocks.simulates [OF assms(1)] have "well_timed cfg val late"
    and r: "reachable cluster_init (cluster_step (timely_step cfg val)) c"
    by (simp_all add: timed_cluster_inv_def timed_inv_def)
  then have "inj val" "Millisecond \<le> Expiration cfg" by (simp_all add: well_timed_def Millisecond_def)
  then show ?thesis using one_process_runs_jobs [OF r] assms(2-5) by blast
qed

text \<open>A delay of fifteen seconds with the default lease of thirty.\<close>

lemma demo_well_timed: "well_timed demo_config demo_val (15 * Second)"
  using inj_demo_val by (simp add: well_timed_def demo_config_def Millisecond_def Second_def)

lemma demo_timed_tick:
  "timed_step demo_config demo_val (\<lambda>_. 0) (15 * Second) \<lparr>tm_election = demo_start, tm_age = (\<lambda>_. 0)\<rparr>
     \<lparr>tm_election = demo_elected, tm_age = (\<lambda>_. 0)\<rparr>"
  using tm_tick [of "\<lparr>tm_election = demo_start, tm_age = (\<lambda>_. 0)\<rparr>" 0 demo_config demo_val "\<lambda>_. 0" "15 * Second" Reached]
  by (simp add: demo_elected_def fun_upd_idem) (simp add: demo_start_def in_loop_def new_watchdog_def)

theorem timed_at_most_one_leader_witness:
  "holder (srv_advance (el_server demo_elected) 20000) ''cron'' = Some (demo_val 0)"
proof -
  let ?s = "timed_step demo_config demo_val (\<lambda>_. 0) (15 * Second)"
  let ?t0 = "\<lparr>tm_election = demo_start, tm_age = (\<lambda>_. 0)\<rparr>"
  let ?t1 = "\<lparr>tm_election = demo_elected, tm_age = (\<lambda>_. 0)\<rparr>"
  let ?t2 = "?t1\<lparr>tm_election := (tm_election ?t1)\<lparr>el_server := srv_advance (el_server (tm_election ?t1)) 20000\<rparr>,
    tm_age := (\<lambda>i. tm_age ?t1 i + 20000)\<rparr>"
  have "timed_init demo_config demo_val (15 * Second) ?t0"
    using demo_well_timed by (auto simp: timed_init_def elect_init_def demo_start_def)
  moreover have "?s ?t0 ?t1" by (rule demo_timed_tick)
  moreover have "?s ?t1 ?t2"
    by (rule tm_time) (simp_all add: tick_bound_def renewIntervalJitter_def Int63n_def demo_config_def Second_def
        Millisecond_def go_div_def)
  ultimately have "reachable (timed_init demo_config demo_val (15 * Second)) ?s ?t2" by (blast intro: reach_init reach_step)
  moreover have "wd_isLeader (el_node (tm_election ?t2) 0)" by (simp add: demo_election_defs)
  ultimately show ?thesis using timed_at_most_one_leader by (fastforce simp: demo_config_def)
qed

theorem timed_one_process_runs_jobs_witness:
  "has_jobs (cl_service (demo_cluster demo_received demo_busy) 0) \<and>
     holder (el_server (cl_election (demo_cluster demo_received demo_busy))) ''cron'' = Some (demo_val 0)"
proof -
  let ?a = "\<lambda>_ :: nat. 0 :: int" and ?s = "timed_cluster_step demo_config demo_val (\<lambda>_. 0) (15 * Second)"
  let ?t = "\<lambda>e. \<lparr>tm_election = e, tm_age = ?a\<rparr>"
  have el: "cluster_step (elect_step demo_config demo_val) c c'" if "cluster_step (timely_step demo_config demo_val) c c'" for c c'
    using that by (rule cluster_step_mono) (auto elim: timely_step.cases)
  have e: "cl_election (demo_cluster e p) = e" for e p by (simp add: demo_cluster_def)
  have tm: "timed_step demo_config demo_val (\<lambda>_. 0) (15 * Second) (?t demo_start) (?t demo_elected)"
    "timed_step demo_config demo_val (\<lambda>_. 0) (15 * Second) (?t demo_elected) (?t demo_delivered)"
    "timed_step demo_config demo_val (\<lambda>_. 0) (15 * Second) (?t demo_delivered) (?t demo_received)"
  proof -
    have "quiet_step demo_config demo_val demo_elected demo_delivered"
      unfolding demo_delivered_def by (rule qs_deliver) (simp_all add: demo_election_defs watcher_cap_def)
    moreover have "quiet_step demo_config demo_val demo_delivered demo_received"
      unfolding demo_received_def
      by (rule qs_receive [of _ _ TakenAcquire]) (simp add: demo_delivered_def demo_election_defs send_done_def)
    ultimately show "timed_step demo_config demo_val (\<lambda>_. 0) (15 * Second) (?t demo_elected) (?t demo_delivered)"
      "timed_step demo_config demo_val (\<lambda>_. 0) (15 * Second) (?t demo_delivered) (?t demo_received)"
      using tm_quiet [of demo_config demo_val "?t demo_elected"] tm_quiet [of demo_config demo_val "?t demo_delivered"] by simp_all
    show "timed_step demo_config demo_val (\<lambda>_. 0) (15 * Second) (?t demo_start) (?t demo_elected)"
      by (rule demo_timed_tick)
  qed
  have step: "?s (c, ?a) (c', ?a)" if "cluster_step (timely_step demo_config demo_val) c c'"
    "timed_step demo_config demo_val (\<lambda>_. 0) (15 * Second) (?t (cl_election c)) (?t (cl_election c')) \<or> cl_election c' = cl_election c" for c c'
    using that el by (auto intro: timed_cluster_step.intros)
  have init: "timed_cluster_init demo_config demo_val (15 * Second) (demo_cluster demo_start demo_service, ?a)"
    using demo_well_timed demo_cluster_moves(1) by (simp add: timed_cluster_init_def)
  have "reachable (timed_cluster_init demo_config demo_val (15 * Second)) ?s (demo_cluster demo_received demo_busy, ?a)"
    unfolding demo_busy_def
    by (rule reach_step [OF reach_step [OF reach_step [OF reach_step [OF reach_step [OF reach_init]]]]])
      (rule init, (rule step, rule demo_cluster_moves, simp add: e tm)+)
  from timed_one_process_runs_jobs [OF this demo_cluster_settled demo_cluster_settled] demo_cluster_settled(2)
  show ?thesis by (simp add: demo_config_def)
qed

end
