(* ===== verification/Bitmap_Storage.thy ===== *)
theory Bitmap_Storage
  imports Utils
begin

text \<open>
  The set storage of \<^verbatim>\<open>bitmap/roaring_bitmap.go\<close> behind the interface \<^verbatim>\<open>MemorySetStorage\<close>
  (\<^verbatim>\<open>contract.go\<close>). The bitmap of \<^verbatim>\<open>RoaringBitmap/roaring\<close> is not part of the repository: its methods are
  the table \<open>roaring_ops\<close> carried by the storage, and \<open>roaring_contract\<close> states their documented
  behaviour in terms of the set of its elements. Every method of the storage holds the mutex for its
  whole body, so it is one step; \<^verbatim>\<open>Warm\<close> takes it twice. Debug logging is left out.

  The callback of \<^verbatim>\<open>Warm\<close> receives the storage; it can change only its bitmap, which is what the model
  passes to it.
\<close>

section \<open>The library\<close>

type_synonym uint64 = "64 word"

record 'b roaring_ops =
  ro_NewBitmap :: 'b
  ro_Contains :: "'b \<Rightarrow> uint64 \<Rightarrow> bool"
  ro_AddMany :: "'b \<Rightarrow> uint64 list \<Rightarrow> 'b"
  ro_Remove :: "'b \<Rightarrow> uint64 \<Rightarrow> 'b"
  ro_GetCardinality :: "'b \<Rightarrow> uint64"
  ro_Clear :: "'b \<Rightarrow> 'b"
  ro_IsEmpty :: "'b \<Rightarrow> bool"
  ro_ToBytes :: "'b \<Rightarrow> go_error + bytes"
  ro_ReadFrom :: "'b \<Rightarrow> bytes \<Rightarrow> 'b \<times> (go_error + int)"
  ro_RunOptimize :: "'b \<Rightarrow> 'b"
  ro_GetSizeInBytes :: "'b \<Rightarrow> uint64"
  ro_elems :: "'b \<Rightarrow> uint64 set"

text \<open>Bytes that \<^verbatim>\<open>ReadFrom\<close> turns into the set \<open>E\<close>, whatever the bitmap held before.\<close>

definition dump_of :: "'b roaring_ops \<Rightarrow> bytes \<Rightarrow> uint64 set \<Rightarrow> bool" where
  "dump_of ops bs E \<longleftrightarrow> bs \<noteq> [] \<and>
     (\<forall>b. \<exists>b' n. ro_ReadFrom ops b bs = (b', Inr n) \<and> ro_elems ops b' = E)"

definition roaring_contract :: "'b roaring_ops \<Rightarrow> bool" where
  "roaring_contract ops \<longleftrightarrow>
     ro_elems ops (ro_NewBitmap ops) = {} \<and>
     (\<forall>b k. ro_Contains ops b k \<longleftrightarrow> k \<in> ro_elems ops b) \<and>
     (\<forall>b ks. ro_elems ops (ro_AddMany ops b ks) = ro_elems ops b \<union> set ks) \<and>
     (\<forall>b k. ro_elems ops (ro_Remove ops b k) = ro_elems ops b - {k}) \<and>
     (\<forall>b. ro_GetCardinality ops b = of_nat (card (ro_elems ops b))) \<and>
     (\<forall>b. ro_elems ops (ro_Clear ops b) = {}) \<and>
     (\<forall>b. ro_IsEmpty ops b \<longleftrightarrow> ro_elems ops b = {}) \<and>
     (\<forall>b bs. ro_ToBytes ops b = Inr bs \<longrightarrow> dump_of ops bs (ro_elems ops b)) \<and>
     (\<forall>b. ro_elems ops (ro_RunOptimize ops b) = ro_elems ops b)"

section \<open>Data\<close>

type_synonym 'b WarmerFunc = "32 word \<Rightarrow> 'b \<Rightarrow> 'b \<times> (go_error + uint64 list)"

record 'b Warmer =
  WarmCallback :: "'b WarmerFunc option"
  BatchSize :: "32 word"

record BitmapStorageConfigs =
  MonitoringTicker :: duration
  OptimizingTicker :: duration
  ReplicationTicker :: duration
  ReplicationTtl :: duration
  StorageName :: string
  DebugLogs :: bool
  ReplicationKey :: string

record 'b roaringBitmapStorage =
  bs_ops :: "'b roaring_ops"
  bs_configs :: BitmapStorageConfigs
  bs_bitmap :: 'b
  bs_warmer :: "'b Warmer option"
  bs_background :: bool

definition NewBitmapStorage ::
    "'b roaring_ops \<Rightarrow> BitmapStorageConfigs \<Rightarrow> 'b Warmer option \<Rightarrow> 'b roaringBitmapStorage call" where
  "NewBitmapStorage ops configs warmer =
     (case warmer of
        None \<Rightarrow> Panic ''invalid memory address or nil pointer dereference''
      | Some w \<Rightarrow>
          if sint (BatchSize w) \<le> 0
          then Panic (''['' @ StorageName configs @ ''] warmer batch size must be greater than 0'')
          else Return \<lparr>bs_ops = ops, bs_configs = configs, bs_bitmap = ro_NewBitmap ops,
                       bs_warmer = Some w, bs_background = False\<rparr>)"

section \<open>Operations\<close>

definition Contains :: "'b roaringBitmapStorage \<Rightarrow> uint64 \<Rightarrow> bool" where
  "Contains s key = ro_Contains (bs_ops s) (bs_bitmap s) key"

definition UpsertMany :: "'b roaringBitmapStorage \<Rightarrow> uint64 list \<Rightarrow> 'b roaringBitmapStorage" where
  "UpsertMany s keys = s\<lparr>bs_bitmap := ro_AddMany (bs_ops s) (bs_bitmap s) keys\<rparr>"

definition RemoveMany :: "'b roaringBitmapStorage \<Rightarrow> uint64 list \<Rightarrow> 'b roaringBitmapStorage" where
  "RemoveMany s keys = s\<lparr>bs_bitmap := foldl (ro_Remove (bs_ops s)) (bs_bitmap s) keys\<rparr>"

definition GetCount :: "'b roaringBitmapStorage \<Rightarrow> uint64" where
  "GetCount s = ro_GetCardinality (bs_ops s) (bs_bitmap s)"

definition Clear :: "'b roaringBitmapStorage \<Rightarrow> 'b roaringBitmapStorage" where
  "Clear s = s\<lparr>bs_bitmap := ro_Clear (bs_ops s) (bs_bitmap s)\<rparr>"

definition isEmpty :: "'b roaringBitmapStorage \<Rightarrow> bool" where
  "isEmpty s = ro_IsEmpty (bs_ops s) (bs_bitmap s)"

definition Warm :: "'b roaringBitmapStorage \<Rightarrow> ('b roaringBitmapStorage \<times> go_error option) call" where
  "Warm s =
     (let empty = isEmpty s in
      case bs_warmer s of
        None \<Rightarrow> Panic (''['' @ StorageName (bs_configs s) @ ''] warmer function cannot be nil'')
      | Some w \<Rightarrow>
          if empty then
            (case WarmCallback w of
               None \<Rightarrow> Panic ''invalid memory address or nil pointer dereference''
             | Some f \<Rightarrow>
                 (case f (BatchSize w) (bs_bitmap s) of
                    (b, Inl err) \<Rightarrow> Return (s\<lparr>bs_bitmap := b\<rparr>, Some err)
                  | (b, Inr data) \<Rightarrow>
                      if length data = 0 then Return (s\<lparr>bs_bitmap := b\<rparr>, None)
                      else Return (UpsertMany (s\<lparr>bs_bitmap := b\<rparr>) data, None)))
          else Return (s, None))"

definition ReadFromBuffer ::
    "'b roaringBitmapStorage \<Rightarrow> bytes \<Rightarrow> 'b roaringBitmapStorage \<times> int \<times> go_error option" where
  "ReadFromBuffer s buffer =
     (case ro_ReadFrom (bs_ops s) (bs_bitmap s) buffer of
        (b, Inl err) \<Rightarrow> (s\<lparr>bs_bitmap := b\<rparr>, 0, Some err)
      | (b, Inr p) \<Rightarrow> (s\<lparr>bs_bitmap := b\<rparr>, p, None))"

text \<open>\<open>Inr None\<close> is the nil slice without an error.\<close>

definition GetBytesFromBitmap :: "'b roaringBitmapStorage \<Rightarrow> go_error + bytes option" where
  "GetBytesFromBitmap s =
     (if ro_IsEmpty (bs_ops s) (bs_bitmap s) then Inr None
      else case ro_ToBytes (bs_ops s) (bs_bitmap s) of Inl err \<Rightarrow> Inl err | Inr bs \<Rightarrow> Inr (Some bs))"

definition optimize :: "'b roaringBitmapStorage \<Rightarrow> 'b roaringBitmapStorage" where
  "optimize s = s\<lparr>bs_bitmap := ro_RunOptimize (bs_ops s) (bs_bitmap s)\<rparr>"

definition getSizeBytes :: "'b roaringBitmapStorage \<Rightarrow> uint64" where
  "getSizeBytes s = ro_GetSizeInBytes (bs_ops s) (bs_bitmap s)"

text \<open>
  \<^verbatim>\<open>background\<close>: the goroutine is not started when the context is done, and ends with a recovered panic
  when one of its tickers is not positive.
\<close>

definition background :: "bool \<Rightarrow> 'b roaringBitmapStorage \<Rightarrow> 'b roaringBitmapStorage" where
  "background done_at_start s =
     fst (GoRecover done_at_start
       (\<lambda>s. if MonitoringTicker (bs_configs s) \<le> 0 \<or> OptimizingTicker (bs_configs s) \<le> 0 \<or>
               ReplicationTicker (bs_configs s) \<le> 0
            then (s, Some ''non-positive interval for NewTicker'')
            else (s\<lparr>bs_background := True\<rparr>, None)) s)"

definition MustWarmer ::
    "bool \<Rightarrow> 'b WarmerFunc option \<Rightarrow> 'b roaringBitmapStorage \<Rightarrow> 'b roaringBitmapStorage call" where
  "MustWarmer done_at_start warmerFunc s =
     (case bs_warmer s of
        None \<Rightarrow> Panic (''['' @ StorageName (bs_configs s) @ ''] warmer function cannot be nil'')
      | Some w \<Rightarrow>
          if WarmCallback w \<noteq> None
          then Panic (''['' @ StorageName (bs_configs s) @ ''] warmer function already set'')
          else Return (background done_at_start (s\<lparr>bs_warmer := Some (w\<lparr>WarmCallback := warmerFunc\<rparr>)\<rparr>)))"

section \<open>The set the storage stands for\<close>

definition bs_elems :: "'b roaringBitmapStorage \<Rightarrow> uint64 set" where
  "bs_elems s = ro_elems (bs_ops s) (bs_bitmap s)"

definition bs_invar :: "'b roaringBitmapStorage \<Rightarrow> bool" where
  "bs_invar s \<longleftrightarrow> roaring_contract (bs_ops s)"

datatype set_op = Op_Upsert "uint64 list" | Op_Remove "uint64 list" | Op_Clear | Op_Optimize

fun set_op_run :: "set_op \<Rightarrow> 'b roaringBitmapStorage \<Rightarrow> 'b roaringBitmapStorage" where
  "set_op_run (Op_Upsert ks) s = UpsertMany s ks"
| "set_op_run (Op_Remove ks) s = RemoveMany s ks"
| "set_op_run Op_Clear s = Clear s"
| "set_op_run Op_Optimize s = optimize s"

fun set_op_spec :: "set_op \<Rightarrow> uint64 set \<Rightarrow> uint64 set" where
  "set_op_spec (Op_Upsert ks) E = E \<union> set ks"
| "set_op_spec (Op_Remove ks) E = E - set ks"
| "set_op_spec Op_Clear E = {}"
| "set_op_spec Op_Optimize E = E"

text \<open>
  A library that obeys the contract: bitmaps are lists, and a dump is a leading byte followed by the
  bits of the elements, one byte each.
\<close>

definition put_uint64 :: "uint64 \<Rightarrow> bytes" where
  "put_uint64 w = map (\<lambda>i. of_bool (bit w i)) [0..<64]"

definition get_uint64 :: "bytes \<Rightarrow> uint64" where
  "get_uint64 bs = horner_sum of_bool 2 (map (\<lambda>b. b = 1) bs)"

fun get_uint64s :: "nat \<Rightarrow> bytes \<Rightarrow> uint64 list" where
  "get_uint64s 0 bs = []"
| "get_uint64s (Suc n) bs = get_uint64 (take 64 bs) # get_uint64s n (drop 64 bs)"

definition list_roaring :: "uint64 list roaring_ops" where
  "list_roaring =
     \<lparr>ro_NewBitmap = [],
      ro_Contains = (\<lambda>b k. k \<in> set b),
      ro_AddMany = (\<lambda>b ks. b @ ks),
      ro_Remove = (\<lambda>b k. removeAll k b),
      ro_GetCardinality = (\<lambda>b. of_nat (card (set b))),
      ro_Clear = (\<lambda>b. []),
      ro_IsEmpty = (\<lambda>b. b = []),
      ro_ToBytes = (\<lambda>b. Inr (1 # concat (map put_uint64 b))),
      ro_ReadFrom = (\<lambda>b bs. case bs of [] \<Rightarrow> (b, Inl ErrUnexpectedEOF)
        | x # rest \<Rightarrow> (get_uint64s (length rest div 64) rest, Inr (int (length bs)))),
      ro_RunOptimize = (\<lambda>b. b),
      ro_GetSizeInBytes = (\<lambda>b. 8 * of_nat (length b)),
      ro_elems = set\<rparr>"

definition demo_configs :: BitmapStorageConfigs where
  "demo_configs = \<lparr>MonitoringTicker = Minute, OptimizingTicker = Minute, ReplicationTicker = Minute,
     ReplicationTtl = Hour, StorageName = ''goods'', DebugLogs = False, ReplicationKey = ''bitmap''\<rparr>"

definition list_storage :: "uint64 list \<Rightarrow> uint64 list roaringBitmapStorage" where
  "list_storage ks = \<lparr>bs_ops = list_roaring, bs_configs = demo_configs, bs_bitmap = ks,
     bs_warmer = Some \<lparr>WarmCallback = Some (\<lambda>n b. (b, Inr [1, 2])), BatchSize = 10\<rparr>, bs_background = False\<rparr>"

section \<open>The interface MemorySetStorage\<close>

locale memory_set =
  fixes upsert :: "'s \<Rightarrow> 'k list \<Rightarrow> 's"
    and remove :: "'s \<Rightarrow> 'k list \<Rightarrow> 's"
    and clear :: "'s \<Rightarrow> 's"
    and contains :: "'s \<Rightarrow> 'k \<Rightarrow> bool"
    and elems :: "'s \<Rightarrow> 'k set"
    and invar :: "'s \<Rightarrow> bool"
  assumes upsert_elems: "invar s \<Longrightarrow> invar (upsert s ks) \<and> elems (upsert s ks) = elems s \<union> set ks"
    and remove_elems: "invar s \<Longrightarrow> invar (remove s ks) \<and> elems (remove s ks) = elems s - set ks"
    and clear_elems: "invar s \<Longrightarrow> invar (clear s) \<and> elems (clear s) = {}"
    and contains_elems: "invar s \<Longrightarrow> contains s k \<longleftrightarrow> k \<in> elems s"
begin

lemma contains_upsert: "invar s \<Longrightarrow> contains (upsert s ks) k \<longleftrightarrow> k \<in> set ks \<or> contains s k"
  by (auto simp: upsert_elems contains_elems)

lemma contains_remove: "invar s \<Longrightarrow> contains (remove s ks) k \<longleftrightarrow> k \<notin> set ks \<and> contains s k"
  by (auto simp: remove_elems contains_elems)

lemma not_contains_clear: "invar s \<Longrightarrow> \<not> contains (clear s) k"
  by (simp add: clear_elems contains_elems)

end

section \<open>Lemmas\<close>

lemma bs_fields [simp]:
  "bs_ops (UpsertMany s ks) = bs_ops s" "bs_ops (RemoveMany s ks) = bs_ops s"
  "bs_ops (Clear s) = bs_ops s" "bs_ops (optimize s) = bs_ops s"
  "bs_ops (fst (ReadFromBuffer s buf)) = bs_ops s"
  by (auto simp: UpsertMany_def RemoveMany_def Clear_def optimize_def ReadFromBuffer_def
      split: prod.splits sum.splits)

lemma bs_invar_cong: "bs_ops s' = bs_ops s \<Longrightarrow> bs_invar s \<Longrightarrow> bs_invar s'"
  by (simp add: bs_invar_def)

lemma bs_elems_Upsert: "bs_invar s \<Longrightarrow> bs_elems (UpsertMany s ks) = bs_elems s \<union> set ks"
  by (simp add: bs_invar_def roaring_contract_def bs_elems_def UpsertMany_def)

lemma foldl_Remove_elems:
  "roaring_contract ops \<Longrightarrow> ro_elems ops (foldl (ro_Remove ops) b ks) = ro_elems ops b - set ks"
  by (induction ks arbitrary: b) (auto simp: roaring_contract_def)

lemma bs_elems_Remove: "bs_invar s \<Longrightarrow> bs_elems (RemoveMany s ks) = bs_elems s - set ks"
  by (simp add: bs_invar_def bs_elems_def RemoveMany_def foldl_Remove_elems)

lemma bs_elems_Clear: "bs_invar s \<Longrightarrow> bs_elems (Clear s) = {}"
  by (simp add: bs_invar_def roaring_contract_def bs_elems_def Clear_def)

lemma bs_elems_optimize: "bs_invar s \<Longrightarrow> bs_elems (optimize s) = bs_elems s"
  by (simp add: bs_invar_def roaring_contract_def bs_elems_def optimize_def)

lemma bs_Contains: "bs_invar s \<Longrightarrow> Contains s k \<longleftrightarrow> k \<in> bs_elems s"
  by (simp add: bs_invar_def roaring_contract_def bs_elems_def Contains_def)

lemma bs_GetCount: "bs_invar s \<Longrightarrow> GetCount s = of_nat (card (bs_elems s))"
  by (simp add: bs_invar_def roaring_contract_def bs_elems_def GetCount_def)

lemma bs_isEmpty: "bs_invar s \<Longrightarrow> isEmpty s \<longleftrightarrow> bs_elems s = {}"
  by (simp add: bs_invar_def roaring_contract_def bs_elems_def isEmpty_def)

interpretation bitmap_set: memory_set UpsertMany RemoveMany Clear Contains bs_elems bs_invar
  by unfold_locales
    (auto simp: bs_elems_Upsert bs_elems_Remove bs_elems_Clear bs_Contains intro: bs_invar_cong [rotated])

lemma GetBytes_dump:
  assumes "bs_invar s" and "GetBytesFromBitmap s = Inr (Some bs)"
  shows "dump_of (bs_ops s) bs (bs_elems s)"
proof -
  have "ro_ToBytes (bs_ops s) (bs_bitmap s) = Inr bs"
    using assms(2) by (auto simp: GetBytesFromBitmap_def split: if_splits sum.splits)
  with assms(1) show ?thesis by (simp add: bs_invar_def roaring_contract_def bs_elems_def)
qed

lemma GetBytes_empty:
  "bs_invar s \<Longrightarrow> GetBytesFromBitmap s = Inr None \<longleftrightarrow> bs_elems s = {}"
  by (auto simp: GetBytesFromBitmap_def bs_invar_def roaring_contract_def bs_elems_def
      split: sum.splits)

lemma ReadFromBuffer_dump:
  assumes "dump_of (bs_ops s) bs E" and "ReadFromBuffer s bs = (s', n, e)"
  shows "e = None \<and> bs_elems s' = E \<and> bs_ops s' = bs_ops s"
proof -
  obtain b m where "ro_ReadFrom (bs_ops s) (bs_bitmap s) bs = (b, Inr m)" "ro_elems (bs_ops s) b = E"
    using assms(1) unfolding dump_of_def by blast
  with assms(2) show ?thesis by (auto simp: ReadFromBuffer_def bs_elems_def)
qed

lemma set_op_run_refines:
  "bs_invar s \<Longrightarrow> bs_invar (set_op_run opn s) \<and> bs_elems (set_op_run opn s) = set_op_spec opn (bs_elems s)"
  by (cases opn) (auto simp: bs_elems_Upsert bs_elems_Remove bs_elems_Clear bs_elems_optimize
      intro: bs_invar_cong [rotated])

lemma set_ops_refine:
  "bs_invar s \<Longrightarrow> bs_invar (fold set_op_run opns s) \<and>
     bs_elems (fold set_op_run opns s) = fold set_op_spec opns (bs_elems s)"
  by (induction opns arbitrary: s) (simp_all add: set_op_run_refines)

section \<open>The list library\<close>

lemma get_put_uint64: "get_uint64 (put_uint64 w) = w"
proof -
  have "map (\<lambda>b. b = (1::byte)) (put_uint64 w) = map (bit w) [0..<64]"
    by (auto simp: put_uint64_def)
  then show ?thesis
    by (simp add: get_uint64_def horner_sum_bit_eq_take_bit take_bit_word_eq_self)
qed

lemma get_put_uint64s: "get_uint64s (length ws) (concat (map put_uint64 ws)) = ws"
proof (induction ws)
  case (Cons w ws)
  have "length (put_uint64 w) = 64" by (simp add: put_uint64_def)
  with Cons show ?case by (simp add: get_put_uint64)
qed simp

lemma length_puts: "length (concat (map put_uint64 ws)) = 64 * length ws"
  by (induction ws) (simp_all add: put_uint64_def)

lemma list_roaring_dump: "dump_of list_roaring (1 # concat (map put_uint64 b)) (set b)"
  by (auto simp: dump_of_def list_roaring_def get_put_uint64s length_puts)

lemma list_roaring_contract: "roaring_contract list_roaring"
  unfolding roaring_contract_def using list_roaring_dump
  by (auto simp: list_roaring_def)

lemma list_storage_invar [simp]: "bs_invar (list_storage ks)"
  by (simp add: bs_invar_def list_storage_def list_roaring_contract)

lemma list_storage_elems [simp]: "bs_elems (list_storage ks) = set ks"
  by (simp add: bs_elems_def list_storage_def list_roaring_def)

section \<open>Properties\<close>

text \<open>
  C18. The storage is a set: after any sequence of \<^verbatim>\<open>UpsertMany\<close>, \<^verbatim>\<open>RemoveMany\<close>, \<^verbatim>\<open>Clear\<close> and \<^verbatim>\<open>optimize\<close>,
  \<^verbatim>\<open>Contains\<close> and \<^verbatim>\<open>GetCount\<close> answer as the set that results from the same operations.
\<close>

theorem bitmap_storage_refines_set:
  assumes "bs_invar s"
  shows "(Contains (fold set_op_run opns s) k \<longleftrightarrow> k \<in> fold set_op_spec opns (bs_elems s)) \<and>
    GetCount (fold set_op_run opns s) = of_nat (card (fold set_op_spec opns (bs_elems s)))"
  using set_ops_refine [OF assms, of opns] bs_Contains bs_GetCount by metis

theorem bitmap_storage_refines_set_witness:
  "Contains (fold set_op_run [Op_Upsert [1, 2, 3], Op_Optimize, Op_Remove [2]] (list_storage [])) 3 \<and>
   GetCount (fold set_op_run [Op_Upsert [1, 2, 3], Op_Optimize, Op_Remove [2]] (list_storage [])) = 2"
proof -
  have "{1, 2, 3} - {2::uint64} = {1, 3}" by auto
  then show ?thesis
    using bitmap_storage_refines_set [OF list_storage_invar, of "[Op_Upsert [1, 2, 3], Op_Optimize, Op_Remove [2]]" "[]" 3]
    by simp
qed

text \<open>
  \<^verbatim>\<open>Warm\<close> leaves a storage with elements alone. An empty one gets what the callback put into it and the
  data it returned; an error of the callback is passed on, with what the callback had put in; a missing
  warmer or callback panics.
\<close>

theorem Warm_spec:
  assumes "bs_invar s"
  shows "case bs_warmer s of
      None \<Rightarrow> (\<exists>p. Warm s = Panic p)
    | Some w \<Rightarrow>
        if bs_elems s \<noteq> {} then Warm s = Return (s, None)
        else (case WarmCallback w of
            None \<Rightarrow> (\<exists>p. Warm s = Panic p)
          | Some f \<Rightarrow> \<exists>s' e. Warm s = Return (s', e) \<and>
              (case f (BatchSize w) (bs_bitmap s) of
                 (b, Inl err) \<Rightarrow> e = Some err \<and> bs_elems s' = ro_elems (bs_ops s) b
               | (b, Inr data) \<Rightarrow> e = None \<and> bs_elems s' = ro_elems (bs_ops s) b \<union> set data))"
proof -
  have "bs_elems (UpsertMany (s\<lparr>bs_bitmap := b\<rparr>) data) = ro_elems (bs_ops s) b \<union> set data" for b data
    using assms bs_elems_Upsert [of "s\<lparr>bs_bitmap := b\<rparr>" data] by (simp add: bs_invar_def bs_elems_def)
  with assms show ?thesis
    by (auto simp: Warm_def bs_isEmpty bs_elems_def split: option.splits prod.splits sum.splits)
qed

theorem Warm_spec_witness: "\<exists>s'. Warm (list_storage []) = Return (s', None) \<and> bs_elems s' = {1, 2}"
proof -
  have "bs_warmer (list_storage []) = Some \<lparr>WarmCallback = Some (\<lambda>n b. (b, Inr [1, 2])), BatchSize = 10\<rparr>"
    "bs_bitmap (list_storage []) = []" "ro_elems (bs_ops (list_storage [])) = set"
    by (simp_all add: list_storage_def list_roaring_def)
  with Warm_spec [OF list_storage_invar, of "[]"] show ?thesis by auto
qed

end
