(* ===== verification/Bitmap_Replicator.thy ===== *)
theory Bitmap_Replicator
  imports Bitmap_Storage
begin

text \<open>
  The replicators of the bitmap storage: the interface \<^verbatim>\<open>MemorySetStorageReplicator\<close> and its three
  implementations (\<^verbatim>\<open>bitmap_fake_replicator.go\<close>, \<^verbatim>\<open>bitmam_redis_replicator.go\<close>,
  \<^verbatim>\<open>bitmap_stub_replicator.go\<close>), and the methods of the storage that call them.

  The Redis client is a table of commands; \<open>kv_contract\<close> states what a reply means for the stored value.
  A command that reports an error may still have been carried out.
\<close>

section \<open>The fake replicator\<close>

record BitmapFakeReplicator =
  fk_store :: "string \<rightharpoonup> bytes"
  fk_forStorage :: string

definition NewBitmapFakeReplicator :: "string \<Rightarrow> BitmapFakeReplicator" where
  "NewBitmapFakeReplicator forStorage = \<lparr>fk_store = Map.empty, fk_forStorage = forStorage\<rparr>"

definition fake_Replicate ::
    "'b roaringBitmapStorage \<Rightarrow> BitmapFakeReplicator \<Rightarrow> string \<Rightarrow> duration
       \<Rightarrow> BitmapFakeReplicator \<times> go_error option" where
  "fake_Replicate storage r replicationKey ttl =
     (case GetBytesFromBitmap storage of
        Inl err \<Rightarrow> (r, Some err)
      | Inr None \<Rightarrow> (r, Some (ErrorString (''['' @ fk_forStorage r @ ''] bitmap is empty for replicate'')))
      | Inr (Some bitmapBytes) \<Rightarrow>
          let buf = go_copy (replicate (length bitmapBytes) 0) bitmapBytes
          in (r\<lparr>fk_store := (fk_store r)(replicationKey \<mapsto> buf)\<rparr>, None))"

text \<open>\<^verbatim>\<open>Recover\<close> reads the dump, clears the storage and then fills it: three critical sections.\<close>

definition fake_read :: "BitmapFakeReplicator \<Rightarrow> string \<Rightarrow> go_error + bytes" where
  "fake_read r replicationKey =
     (case fk_store r replicationKey of
        None \<Rightarrow> Inl (ErrorString (''['' @ fk_forStorage r @ ''] no data found for replication key: '' @ replicationKey))
      | Some data \<Rightarrow>
          if length data = 0
          then Inl (ErrorString (''['' @ fk_forStorage r @ ''] no data found for replication key: '' @ replicationKey))
          else Inr data)"

definition fake_Recover ::
    "'b roaringBitmapStorage \<Rightarrow> BitmapFakeReplicator \<Rightarrow> string \<Rightarrow> 'b roaringBitmapStorage \<times> go_error option" where
  "fake_Recover storage r replicationKey =
     (case fake_read r replicationKey of
        Inl err \<Rightarrow> (storage, Some err)
      | Inr data \<Rightarrow> (case ReadFromBuffer (Clear storage) data of (storage', _, err) \<Rightarrow> (storage', err)))"

definition fake_DropReplicationKey ::
    "BitmapFakeReplicator \<Rightarrow> string \<Rightarrow> BitmapFakeReplicator \<times> go_error option" where
  "fake_DropReplicationKey r replicationKey = (r\<lparr>fk_store := (fk_store r)(replicationKey := None)\<rparr>, None)"

section \<open>The Redis replicator\<close>

text \<open>\<^verbatim>\<open>Get\<close> yields the bytes, possibly a nil slice, or an error; a missing key is the error \<^verbatim>\<open>redis.Nil\<close>.\<close>

record 'c kv_ops =
  kv_Get :: "'c \<Rightarrow> string \<Rightarrow> go_error + bytes option"
  kv_Set :: "'c \<Rightarrow> string \<Rightarrow> bytes \<Rightarrow> duration \<Rightarrow> 'c \<times> go_error option"
  kv_Del :: "'c \<Rightarrow> string \<Rightarrow> 'c \<times> go_error option"
  kv_view :: "'c \<Rightarrow> string \<rightharpoonup> bytes"

definition kv_contract :: "'c kv_ops \<Rightarrow> bool" where
  "kv_contract ops \<longleftrightarrow>
     (\<forall>c k. case kv_Get ops c k of Inl _ \<Rightarrow> True
            | Inr None \<Rightarrow> kv_view ops c k = Some []
            | Inr (Some bs) \<Rightarrow> kv_view ops c k = Some bs) \<and>
     (\<forall>c k bs ttl c' e. kv_Set ops c k bs ttl = (c', e) \<longrightarrow>
        kv_view ops c' = (kv_view ops c)(k \<mapsto> bs) \<or> e \<noteq> None \<and> kv_view ops c' = kv_view ops c) \<and>
     (\<forall>c k c' e. kv_Del ops c k = (c', e) \<longrightarrow>
        kv_view ops c' = (kv_view ops c)(k := None) \<or> e \<noteq> None \<and> kv_view ops c' = kv_view ops c)"

record 'c BitmapRedisReplicator =
  rr_ops :: "'c kv_ops"
  rr_redis :: 'c
  rr_forStorage :: string

definition NewBimapRedisReplicator ::
    "'c kv_ops \<Rightarrow> 'c option \<Rightarrow> string \<Rightarrow> 'c BitmapRedisReplicator call" where
  "NewBimapRedisReplicator ops redisClient forStorage =
     (case redisClient of
        None \<Rightarrow> Panic ''redis client must be not nil''
      | Some c \<Rightarrow> Return \<lparr>rr_ops = ops, rr_redis = c, rr_forStorage = forStorage\<rparr>)"

definition writeBytesToDump ::
    "'c BitmapRedisReplicator \<Rightarrow> string \<Rightarrow> bytes \<Rightarrow> duration \<Rightarrow> 'c BitmapRedisReplicator \<times> go_error option" where
  "writeBytesToDump r versionKey bs ttl =
     (case kv_Set (rr_ops r) (rr_redis r) versionKey bs ttl of (c, err) \<Rightarrow> (r\<lparr>rr_redis := c\<rparr>, err))"

definition readBytesFromDump :: "'c BitmapRedisReplicator \<Rightarrow> string \<Rightarrow> go_error + bytes option" where
  "readBytesFromDump r versionKey =
     (case kv_Get (rr_ops r) (rr_redis r) versionKey of
        Inl err \<Rightarrow> Inl err
      | Inr None \<Rightarrow> Inr None
      | Inr (Some bs) \<Rightarrow> Inr (Some bs))"

definition redis_Replicate ::
    "'b roaringBitmapStorage \<Rightarrow> 'c BitmapRedisReplicator \<Rightarrow> string \<Rightarrow> duration
       \<Rightarrow> 'c BitmapRedisReplicator \<times> go_error option" where
  "redis_Replicate storage r replicationKey ttl =
     (case GetBytesFromBitmap storage of
        Inl err \<Rightarrow> (r, Some err)
      | Inr None \<Rightarrow> (r, Some (ErrorString (''['' @ rr_forStorage r @ ''] bitmap is empty for replicate'')))
      | Inr (Some bitmapBytes) \<Rightarrow> writeBytesToDump r replicationKey bitmapBytes ttl)"

text \<open>A nil slice makes an empty buffer.\<close>

definition redis_Recover ::
    "'b roaringBitmapStorage \<Rightarrow> 'c BitmapRedisReplicator \<Rightarrow> string \<Rightarrow> 'b roaringBitmapStorage \<times> go_error option" where
  "redis_Recover storage r versionKey =
     (case readBytesFromDump r versionKey of
        Inl err \<Rightarrow> (storage, Some err)
      | Inr bs \<Rightarrow>
          (case ReadFromBuffer (Clear storage) (case bs of None \<Rightarrow> [] | Some b \<Rightarrow> b) of
             (storage', _, err) \<Rightarrow> (storage', err)))"

definition redis_DropReplicationKey ::
    "'c BitmapRedisReplicator \<Rightarrow> string \<Rightarrow> 'c BitmapRedisReplicator \<times> go_error option" where
  "redis_DropReplicationKey r replicationKey =
     (case kv_Del (rr_ops r) (rr_redis r) replicationKey of (c, err) \<Rightarrow> (r\<lparr>rr_redis := c\<rparr>, err))"

section \<open>The stub\<close>

definition stub_Replicate :: "'b roaringBitmapStorage \<Rightarrow> unit \<Rightarrow> string \<Rightarrow> duration \<Rightarrow> unit \<times> go_error option" where
  "stub_Replicate storage r replicationKey ttl = ((), None)"

definition stub_Recover :: "'b roaringBitmapStorage \<Rightarrow> unit \<Rightarrow> string \<Rightarrow> 'b roaringBitmapStorage \<times> go_error option" where
  "stub_Recover storage r versionKey = (storage, None)"

definition stub_DropReplicationKey :: "unit \<Rightarrow> string \<Rightarrow> unit \<times> go_error option" where
  "stub_DropReplicationKey r replicationKey = ((), None)"

section \<open>The storage's own methods\<close>

text \<open>
  They call the replicator the storage was made with, here the functions \<open>rep\<close>, \<open>rec\<close> and \<open>drp\<close> and the
  replicator's state \<open>r\<close>.
\<close>

definition Recover ::
    "('s \<Rightarrow> 'r \<Rightarrow> string \<Rightarrow> 's \<times> go_error option) \<Rightarrow> ('s \<Rightarrow> BitmapStorageConfigs) \<Rightarrow> 's \<Rightarrow> 'r
       \<Rightarrow> 's \<times> go_error option" where
  "Recover rec configs s r = rec s r (ReplicationKey (configs s))"

definition Replicate ::
    "('s \<Rightarrow> 'r \<Rightarrow> string \<Rightarrow> duration \<Rightarrow> 'r \<times> go_error option) \<Rightarrow> ('s \<Rightarrow> BitmapStorageConfigs) \<Rightarrow> 's \<Rightarrow> 'r
       \<Rightarrow> 'r \<times> go_error option" where
  "Replicate rep configs s r = rep s r (ReplicationKey (configs s)) (ReplicationTtl (configs s))"

definition DropReplicationKey ::
    "('r \<Rightarrow> string \<Rightarrow> 'r \<times> go_error option) \<Rightarrow> ('s \<Rightarrow> BitmapStorageConfigs) \<Rightarrow> 's \<Rightarrow> 'r \<Rightarrow> 'r \<times> go_error option" where
  "DropReplicationKey drp configs s r = drp r (ReplicationKey (configs s))"

text \<open>One iteration of the background goroutine.\<close>

datatype bg_tick = MonitorTick | OptimizeTick | ReplicateTick

definition background_tick ::
    "('b roaringBitmapStorage \<Rightarrow> 'r \<Rightarrow> string \<Rightarrow> duration \<Rightarrow> 'r \<times> go_error option) \<Rightarrow> bg_tick
       \<Rightarrow> 'b roaringBitmapStorage \<times> 'r \<Rightarrow> 'b roaringBitmapStorage \<times> 'r" where
  "background_tick rep t sr =
     (case sr of (s, r) \<Rightarrow>
        (case t of
           MonitorTick \<Rightarrow> (s, r)
         | OptimizeTick \<Rightarrow> (optimize s, r)
         | ReplicateTick \<Rightarrow> (s, fst (Replicate rep bs_configs s r))))"

section \<open>What a replicator holds\<close>

definition fake_holds :: "'b roaringBitmapStorage \<Rightarrow> BitmapFakeReplicator \<Rightarrow> string \<Rightarrow> uint64 set \<Rightarrow> bool" where
  "fake_holds s r k E \<longleftrightarrow> (\<exists>bs. fk_store r k = Some bs \<and> dump_of (bs_ops s) bs E)"

definition redis_holds :: "'b roaringBitmapStorage \<Rightarrow> 'c BitmapRedisReplicator \<Rightarrow> string \<Rightarrow> uint64 set \<Rightarrow> bool" where
  "redis_holds s r k E \<longleftrightarrow> kv_contract (rr_ops r) \<and>
     (\<exists>bs. kv_view (rr_ops r) (rr_redis r) k = Some bs \<and> dump_of (bs_ops s) bs E)"

definition redis_ok :: "'c BitmapRedisReplicator \<Rightarrow> bool" where
  "redis_ok r \<longleftrightarrow> kv_contract (rr_ops r)"

definition same_library :: "'b roaringBitmapStorage \<Rightarrow> 'b roaringBitmapStorage \<Rightarrow> bool" where
  "same_library s s' \<longleftrightarrow> bs_ops s' = bs_ops s"

text \<open>A Redis that answers every command.\<close>

definition map_kv :: "(string \<rightharpoonup> bytes) kv_ops" where
  "map_kv = \<lparr>kv_Get = (\<lambda>c k. case c k of None \<Rightarrow> Inl (ErrorString ''redis: nil'') | Some bs \<Rightarrow> Inr (Some bs)),
     kv_Set = (\<lambda>c k bs ttl. (c(k \<mapsto> bs), None)), kv_Del = (\<lambda>c k. (c(k := None), None)), kv_view = (\<lambda>c. c)\<rparr>"

definition demo_redis :: "(string \<rightharpoonup> bytes) BitmapRedisReplicator" where
  "demo_redis = \<lparr>rr_ops = map_kv, rr_redis = Map.empty, rr_forStorage = ''goods''\<rparr>"

section \<open>The interface MemorySetStorageReplicator\<close>

text \<open>
  \<open>holds s r k E\<close>: under the key \<open>k\<close> lies a dump of the set \<open>E\<close> that a storage like \<open>s\<close> can read. A
  successful replication files the storage's elements, a successful recovery brings them back.
\<close>

locale replicator =
  fixes rep :: "'s \<Rightarrow> 'r \<Rightarrow> 'k \<Rightarrow> 'd \<Rightarrow> 'r \<times> 'e option"
    and rec :: "'s \<Rightarrow> 'r \<Rightarrow> 'k \<Rightarrow> 's \<times> 'e option"
    and holds :: "'s \<Rightarrow> 'r \<Rightarrow> 'k \<Rightarrow> 'a set \<Rightarrow> bool"
    and elems :: "'s \<Rightarrow> 'a set"
    and invar :: "'s \<Rightarrow> bool"
    and ready :: "'r \<Rightarrow> bool"
    and alike :: "'s \<Rightarrow> 's \<Rightarrow> bool"
  assumes rep_holds: "invar s \<Longrightarrow> ready r \<Longrightarrow> rep s r k t = (r', None) \<Longrightarrow> ready r' \<and> holds s r' k (elems s)"
    and rep_other: "invar s \<Longrightarrow> ready r \<Longrightarrow> rep s r k t = (r', e) \<Longrightarrow> j \<noteq> k \<Longrightarrow> holds s r j E \<Longrightarrow> holds s r' j E"
    and rep_empty: "invar s \<Longrightarrow> elems s = {} \<Longrightarrow> \<exists>e. rep s r k t = (r, Some e)"
    and rec_elems: "invar s \<Longrightarrow> ready r \<Longrightarrow> holds s r k E \<Longrightarrow> rec s r k = (s', None) \<Longrightarrow> elems s' = E"
    and rec_invar: "invar s \<Longrightarrow> rec s r k = (s', e) \<Longrightarrow> invar s' \<and> alike s s'"
    and holds_alike: "alike s s' \<Longrightarrow> holds s r k E \<longleftrightarrow> holds s' r k E"
begin

lemma round_trip:
  assumes "invar s" and "invar s2" and "ready r" and "alike s s2"
    and "rep s r k t = (r', None)" and "rec s2 r' k = (s', None)"
  shows "elems s' = elems s"
  using assms rep_holds [OF assms(1,3,5)] holds_alike [OF assms(4)] rec_elems by metis

text \<open>An emptied storage cannot be replicated: the dump keeps the removed elements.\<close>

lemma emptied_comes_back:
  assumes "invar s" and "ready r" and "holds s r k E" and "elems s = {}"
    and "rep s r k t = (r', e)" and "rec s r' k = (s', None)"
  shows "e \<noteq> None \<and> elems s' = E"
proof -
  obtain e' where "rep s r k t = (r, Some e')" using rep_empty [OF assms(1,4)] by blast
  with assms(5) have "r' = r" "e = Some e'" by simp_all
  with rec_elems [OF assms(1-3)] assms(6) show ?thesis by simp
qed

end

section \<open>The implementations\<close>

lemma Clear_ReadFromBuffer:
  assumes "dump_of (bs_ops s) bs E" and "ReadFromBuffer (Clear s) bs = (s', n, e)"
  shows "e = None \<and> bs_elems s' = E"
  using ReadFromBuffer_dump [of "Clear s" bs E s' n e] assms by simp

lemma ReadFromBuffer_ops: "ReadFromBuffer s bs = (s', n, e) \<Longrightarrow> bs_ops s' = bs_ops s"
  using bs_fields(5) [of s bs] by simp

lemma fake_Recover_ops: "fake_Recover s r k = (s', e) \<Longrightarrow> bs_ops s' = bs_ops s"
  by (auto simp: fake_Recover_def split: sum.splits prod.splits dest!: ReadFromBuffer_ops)

lemma redis_Recover_ops: "redis_Recover s r k = (s', e) \<Longrightarrow> bs_ops s' = bs_ops s"
  by (auto simp: redis_Recover_def split: sum.splits prod.splits dest!: ReadFromBuffer_ops)

lemma fake_Recover_holds:
  assumes "fake_holds s r k E"
  shows "\<exists>s'. fake_Recover s r k = (s', None) \<and> bs_elems s' = E"
proof -
  obtain bs where bs: "fk_store r k = Some bs" "dump_of (bs_ops s) bs E"
    using assms by (auto simp: fake_holds_def)
  obtain s' n e where r: "ReadFromBuffer (Clear s) bs = (s', n, e)" using prod_cases3 by blast
  from bs have "fake_read r k = Inr bs" by (simp add: fake_read_def dump_of_def)
  with Clear_ReadFromBuffer [OF bs(2) r] r show ?thesis by (simp add: fake_Recover_def)
qed

interpretation fake: replicator fake_Replicate fake_Recover fake_holds bs_elems bs_invar "\<lambda>_. True" same_library
proof (unfold_locales, goal_cases)
  case (1 s r k t r')
  then show ?case
    by (auto simp: fake_Replicate_def fake_holds_def Let_def split: sum.splits option.splits dest: GetBytes_dump)
next
  case (2 s r k t r' e j E)
  then show ?case
    by (auto simp: fake_Replicate_def fake_holds_def Let_def split: sum.splits option.splits)
next
  case (3 s r k t)
  with GetBytes_empty [of s] show ?case by (simp add: fake_Replicate_def)
next
  case (4 s r k E s')
  with fake_Recover_holds [of s r k E] show ?case by auto
next
  case (5 s r k s' e)
  from fake_Recover_ops [OF 5(2)] 5(1) show ?case by (simp add: bs_invar_def same_library_def)
next
  case 6
  then show ?case by (simp add: fake_holds_def same_library_def)
qed

lemma redis_Recover_holds:
  assumes "redis_holds s r k E" and "redis_Recover s r k = (s', None)"
  shows "bs_elems s' = E"
proof -
  obtain bs where bs: "kv_view (rr_ops r) (rr_redis r) k = Some bs" "dump_of (bs_ops s) bs E"
    and c: "kv_contract (rr_ops r)"
    using assms(1) by (auto simp: redis_holds_def)
  obtain b where b: "readBytesFromDump r k = Inr b"
    using assms(2) by (auto simp: redis_Recover_def split: sum.splits)
  then have "kv_view (rr_ops r) (rr_redis r) k = Some (case b of None \<Rightarrow> [] | Some b \<Rightarrow> b)"
    using c unfolding kv_contract_def readBytesFromDump_def
    by (auto split: sum.splits option.splits dest!: spec [of _ "rr_redis r"] spec [of _ k])
  with bs(1) have "bs = (case b of None \<Rightarrow> [] | Some b \<Rightarrow> b)" by simp
  moreover obtain s1 n e where r: "ReadFromBuffer (Clear s) bs = (s1, n, e)" using prod_cases3 by blast
  ultimately have "s' = s1" using assms(2) b by (simp add: redis_Recover_def)
  with Clear_ReadFromBuffer [OF bs(2) r] show ?thesis by simp
qed

lemma redis_write_view:
  assumes "redis_ok r" and "writeBytesToDump r k bs t = (r', e)"
  shows "rr_ops r' = rr_ops r" and
    "kv_view (rr_ops r) (rr_redis r') = (kv_view (rr_ops r) (rr_redis r))(k \<mapsto> bs) \<or>
     e \<noteq> None \<and> kv_view (rr_ops r) (rr_redis r') = kv_view (rr_ops r) (rr_redis r)"
proof -
  obtain c where c: "kv_Set (rr_ops r) (rr_redis r) k bs t = (c, e)" "r' = r\<lparr>rr_redis := c\<rparr>"
    using assms(2) by (auto simp: writeBytesToDump_def split: prod.splits)
  with assms(1) show "rr_ops r' = rr_ops r" and
    "kv_view (rr_ops r) (rr_redis r') = (kv_view (rr_ops r) (rr_redis r))(k \<mapsto> bs) \<or>
     e \<noteq> None \<and> kv_view (rr_ops r) (rr_redis r') = kv_view (rr_ops r) (rr_redis r)"
    by (simp_all add: redis_ok_def kv_contract_def)
qed

interpretation redis_rep: replicator redis_Replicate redis_Recover redis_holds bs_elems bs_invar redis_ok same_library
proof (unfold_locales, goal_cases)
  case (1 s r k t r')
  then obtain bs where bs: "GetBytesFromBitmap s = Inr (Some bs)" "writeBytesToDump r k bs t = (r', None)"
    by (auto simp: redis_Replicate_def split: sum.splits option.splits)
  from redis_write_view [OF 1(2) bs(2)] GetBytes_dump [OF 1(1) bs(1)] 1(2) show ?case
    by (simp add: redis_holds_def redis_ok_def)
next
  case (2 s r k t r' e j E)
  then have "r' = r \<or> (\<exists>bs. writeBytesToDump r k bs t = (r', e))"
    by (auto simp: redis_Replicate_def split: sum.splits option.splits)
  then show ?case
  proof
    assume "\<exists>bs. writeBytesToDump r k bs t = (r', e)"
    then obtain bs where "writeBytesToDump r k bs t = (r', e)" by blast
    from redis_write_view [OF 2(2) this] 2(4,5) show ?thesis by (auto simp: redis_holds_def)
  qed (use 2(5) in simp)
next
  case (3 s r k t)
  with GetBytes_empty [of s] show ?case by (simp add: redis_Replicate_def)
next
  case (4 s r k E s')
  then show ?case using redis_Recover_holds by blast
next
  case (5 s r k s' e)
  from redis_Recover_ops [OF 5(2)] 5(1) show ?case by (simp add: bs_invar_def same_library_def)
next
  case 6
  then show ?case by (simp add: redis_holds_def same_library_def)
qed

lemma map_kv_contract: "kv_contract map_kv"
  by (auto simp: kv_contract_def map_kv_def split: option.splits)

section \<open>Properties\<close>

text \<open>
  C22. What was replicated to Redis comes back: after a successful \<^verbatim>\<open>Replicate\<close> of one storage, a successful
  \<^verbatim>\<open>Recover\<close> of another with the same key leaves that one with exactly the elements of the first,
  whatever it held before.
\<close>

theorem redis_replicator_roundtrip:
  assumes "bs_invar s" and "bs_invar s2" and "redis_ok r" and "same_library s s2"
    and "redis_Replicate s r k ttl = (r', None)" and "redis_Recover s2 r' k = (s', None)"
  shows "bs_elems s' = bs_elems s"
  using assms by (rule redis_rep.round_trip)

theorem redis_replicator_roundtrip_witness:
  "bs_elems (fst (redis_Recover (list_storage [9])
     (fst (redis_Replicate (list_storage [1, 2]) demo_redis ''k'' Hour)) ''k'')) = {1, 2}"
proof -
  let ?r' = "fst (redis_Replicate (list_storage [1, 2]) demo_redis ''k'' Hour)"
  let ?s' = "fst (redis_Recover (list_storage [9]) ?r' ''k'')"
  have a: "redis_ok demo_redis" "same_library (list_storage [1, 2]) (list_storage [9])"
    by (simp_all add: redis_ok_def demo_redis_def map_kv_contract same_library_def list_storage_def)
  have b: "redis_Replicate (list_storage [1, 2]) demo_redis ''k'' Hour = (?r', None)"
    by (simp add: redis_Replicate_def GetBytesFromBitmap_def list_storage_def list_roaring_def
        writeBytesToDump_def demo_redis_def map_kv_def)
  have c: "redis_Recover (list_storage [9]) ?r' ''k'' = (?s', None)"
    by (simp add: redis_Replicate_def GetBytesFromBitmap_def list_storage_def list_roaring_def
        writeBytesToDump_def demo_redis_def map_kv_def redis_Recover_def readBytesFromDump_def Clear_def
        ReadFromBuffer_def)
  from redis_replicator_roundtrip [OF list_storage_invar list_storage_invar a b c] show ?thesis by simp
qed

text \<open>
  With the fake replicator recovery of a replicated key always succeeds and restores the elements,
  and after \<^verbatim>\<open>DropReplicationKey\<close> it fails and leaves the storage alone.
\<close>

theorem fake_replicator_roundtrip:
  assumes "bs_invar s" and "bs_elems s \<noteq> {}" and "same_library s s2"
    and "fake_Replicate s r k ttl = (r', None)"
  shows "(\<exists>s'. fake_Recover s2 r' k = (s', None) \<and> bs_elems s' = bs_elems s) \<and>
    (\<exists>e. fake_Recover s2 (fst (fake_DropReplicationKey r' k)) k = (s2, Some e))"
proof
  have "fake_holds s r' k (bs_elems s)" using fake.rep_holds [OF assms(1) _ assms(4)] by simp
  then have "fake_holds s2 r' k (bs_elems s)" using assms(3) by (simp add: fake_holds_def same_library_def)
  then show "\<exists>s'. fake_Recover s2 r' k = (s', None) \<and> bs_elems s' = bs_elems s" by (rule fake_Recover_holds)
  show "\<exists>e. fake_Recover s2 (fst (fake_DropReplicationKey r' k)) k = (s2, Some e)"
    by (simp add: fake_Recover_def fake_DropReplicationKey_def fake_read_def)
qed

theorem fake_replicator_roundtrip_witness:
  "\<exists>r' s'. fake_Replicate (list_storage [1, 2]) (NewBitmapFakeReplicator ''goods'') ''k'' Hour = (r', None) \<and>
     fake_Recover (list_storage []) r' ''k'' = (s', None) \<and> bs_elems s' = {1, 2}"
proof -
  let ?f = "fake_Replicate (list_storage [1, 2]) (NewBitmapFakeReplicator ''goods'') ''k'' Hour"
  have f: "?f = (fst ?f, None)"
    by (simp add: fake_Replicate_def GetBytesFromBitmap_def list_storage_def list_roaring_def Let_def)
  have "bs_elems (list_storage [1, 2]) \<noteq> {}" "same_library (list_storage [1, 2]) (list_storage [])"
    by (simp_all add: same_library_def list_storage_def [of "[1, 2]"] list_storage_def [of "[]"]
        bs_elems_def list_roaring_def)
  from fake_replicator_roundtrip [OF list_storage_invar this f] f show ?thesis by auto
qed

text \<open>
  Removed elements come back: an emptied storage cannot be replicated (both replicators return an
  error and keep the old dump), so the next \<^verbatim>\<open>Recover\<close> restores the elements that were removed.
\<close>

theorem emptied_storage_comes_back:
  assumes "bs_invar s" and "redis_ok r" and "redis_holds s r k E" and "bs_elems s = {}"
    and "redis_Replicate s r k ttl = (r', e)" and "redis_Recover s r' k = (s', None)"
  shows "e \<noteq> None \<and> bs_elems s' = E"
  using assms by (rule redis_rep.emptied_comes_back)

theorem emptied_storage_comes_back_witness:
  "\<exists>e. snd (redis_Replicate (RemoveMany (list_storage [1, 2]) [1, 2])
        (fst (redis_Replicate (list_storage [1, 2]) demo_redis ''k'' Hour)) ''k'' Hour) = Some e"
proof -
  let ?s = "RemoveMany (list_storage [1, 2]) [1, 2]"
  let ?r = "fst (redis_Replicate (list_storage [1, 2]) demo_redis ''k'' Hour)"
  have inv: "bs_invar ?s" by (rule bs_invar_cong [OF _ list_storage_invar]) simp
  have ok: "redis_ok demo_redis" by (simp add: redis_ok_def demo_redis_def map_kv_contract)
  have b: "redis_Replicate (list_storage [1, 2]) demo_redis ''k'' Hour = (?r, None)"
    by (simp add: redis_Replicate_def GetBytesFromBitmap_def list_storage_def list_roaring_def
        writeBytesToDump_def demo_redis_def map_kv_def)
  from redis_rep.rep_holds [OF list_storage_invar ok b]
  have r: "redis_ok ?r" "redis_holds (list_storage [1, 2]) ?r ''k'' {1, 2}" by simp_all
  then have h: "redis_holds ?s ?r ''k'' {1, 2}" by (simp add: redis_holds_def)
  have e: "bs_elems ?s = {}" by (simp add: bs_elems_Remove)
  have c: "redis_Recover ?s (fst (redis_Replicate ?s ?r ''k'' Hour)) ''k'' =
      (fst (redis_Recover ?s (fst (redis_Replicate ?s ?r ''k'' Hour)) ''k''), None)"
    by (simp add: redis_Replicate_def GetBytesFromBitmap_def list_storage_def list_roaring_def
        writeBytesToDump_def demo_redis_def map_kv_def redis_Recover_def readBytesFromDump_def Clear_def
        ReadFromBuffer_def RemoveMany_def)
  from emptied_storage_comes_back [OF inv r(1) h e surjective_pairing c] show ?thesis by auto
qed

text \<open>
  \<^verbatim>\<open>Recover\<close> is not atomic: keys another goroutine inserts between its \<^verbatim>\<open>Clear\<close> and its \<^verbatim>\<open>ReadFromBuffer\<close>
  are gone afterwards, although they are newer than the dump.
\<close>

theorem Recover_drops_concurrent_upsert:
  assumes "bs_invar s" and "fake_holds s r k E" and "fake_read r k = Inr data"
    and "ReadFromBuffer (UpsertMany (Clear s) keys) data = (s', n, e)"
  shows "Contains (UpsertMany (Clear s) keys) x = (x \<in> set keys) \<and>
    e = None \<and> Contains s' x = (x \<in> E)"
proof -
  let ?s = "UpsertMany (Clear s) keys"
  have inv: "bs_invar (Clear s)" "bs_invar ?s" using assms(1) by (auto intro: bs_invar_cong [rotated])
  obtain bs where bs: "fk_store r k = Some bs" "dump_of (bs_ops s) bs E"
    using assms(2) by (auto simp: fake_holds_def)
  with assms(3) have "data = bs" by (auto simp: fake_read_def split: if_splits)
  with ReadFromBuffer_dump [of ?s bs E] bs(2) assms(4) have r: "e = None" "bs_elems s' = E" "bs_ops s' = bs_ops s"
    by auto
  have "bs_invar s'" using r(3) assms(1) by (rule bs_invar_cong)
  with r inv show ?thesis
    using bitmap_set.contains_upsert [OF inv(1), of keys x] bitmap_set.not_contains_clear [OF assms(1), of x]
    by (simp add: bs_Contains [of s'])
qed

theorem Recover_drops_concurrent_upsert_witness:
  "\<exists>r data s' n. fake_read r ''k'' = Inr data \<and>
     ReadFromBuffer (UpsertMany (Clear (list_storage [])) [7]) data = (s', n, None) \<and>
     Contains s' 7 = (7 \<in> {1, 2::uint64})"
proof -
  let ?bs = "1 # concat (map put_uint64 [1, 2])"
  let ?r = "\<lparr>fk_store = [''k'' \<mapsto> ?bs], fk_forStorage = ''goods''\<rparr>"
  have h: "fake_holds (list_storage []) ?r ''k'' (set [1, 2])"
    unfolding fake_holds_def
    by (intro exI [of _ ?bs] conjI)
      (use list_roaring_dump [of "[1, 2]"] in \<open>simp_all add: list_storage_def\<close>)
  have d: "fake_read ?r ''k'' = Inr ?bs" by (simp add: fake_read_def)
  obtain s' n e where r: "ReadFromBuffer (UpsertMany (Clear (list_storage [])) [7]) ?bs = (s', n, e)"
    using prod_cases3 by blast
  from Recover_drops_concurrent_upsert [OF list_storage_invar h d r, of 7] d r show ?thesis
    by (intro exI [of _ ?r] exI [of _ ?bs] exI [of _ s'] exI [of _ n]) simp
qed

end
