(* ===== verification/Bitmap_Service.thy ===== *)
theory Bitmap_Service
  imports Bitmap_Replicator
begin

text \<open>
  A storage in service: clients change it, its background goroutine optimises and replicates it to Redis,
  clients recover it from there, and the process may crash and start again with an empty storage. Every
  method is cut where it gives up the storage's mutex: \<^verbatim>\<open>Replicate\<close> takes the bytes in one critical section
  and writes them to Redis afterwards, \<^verbatim>\<open>Recover\<close> reads from Redis, clears and fills the storage. \<^verbatim>\<open>Warm\<close> is
  the sequence of the client operations it makes.

  The history is a ghost list of the sets the storage has held. The abstract specification: what is in
  Redis is one of these sets as a whole, taken no earlier than the last acknowledged replication.
\<close>

section \<open>State and steps\<close>

text \<open>
  \<open>bv_pending\<close> are the bytes the background goroutine is about to write, with their place in the history;
  \<open>bv_loads\<close> the dumps calls of \<^verbatim>\<open>Recover\<close> have read, with a flag telling whether they have cleared the
  storage already. \<open>bv_acked\<close> is the place in the history of the last dump whose write was acknowledged.
\<close>

record ('b, 'c) bitmap_service =
  bv_storage :: "'b roaringBitmapStorage"
  bv_replicator :: "'c BitmapRedisReplicator"
  bv_pending :: "(nat \<times> bytes) option"
  bv_loads :: "(bool \<times> bytes) list"
  bv_history :: "uint64 set list"
  bv_acked :: nat

text \<open>The storage changes, and the history grows.\<close>

definition set_storage :: "'b roaringBitmapStorage \<Rightarrow> ('b, 'c) bitmap_service \<Rightarrow> ('b, 'c) bitmap_service" where
  "set_storage s v = v\<lparr>bv_storage := s, bv_history := bv_history v @ [bs_elems s]\<rparr>"

text \<open>\<^verbatim>\<open>Replicate\<close> by the background goroutine: up to the bytes, and the write.\<close>

definition replicate_take :: "('b, 'c) bitmap_service \<Rightarrow> ('b, 'c) bitmap_service" where
  "replicate_take v =
     (case GetBytesFromBitmap (bv_storage v) of
        Inl err \<Rightarrow> v
      | Inr None \<Rightarrow> v
      | Inr (Some bs) \<Rightarrow> v\<lparr>bv_pending := Some (length (bv_history v) - 1, bs)\<rparr>)"

definition replicate_write :: "('b, 'c) bitmap_service \<Rightarrow> ('b, 'c) bitmap_service" where
  "replicate_write v =
     (case bv_pending v of None \<Rightarrow> v
      | Some (i, bs) \<Rightarrow>
          (case writeBytesToDump (bv_replicator v) (ReplicationKey (bs_configs (bv_storage v))) bs
                  (ReplicationTtl (bs_configs (bv_storage v))) of
             (r, err) \<Rightarrow> v\<lparr>bv_replicator := r, bv_pending := None,
                           bv_acked := (if err = None then i else bv_acked v)\<rparr>))"

text \<open>\<^verbatim>\<open>Recover\<close> by a client: the read, \<^verbatim>\<open>Clear\<close> and \<^verbatim>\<open>ReadFromBuffer\<close>.\<close>

definition recover_read :: "('b, 'c) bitmap_service \<Rightarrow> ('b, 'c) bitmap_service" where
  "recover_read v =
     (case readBytesFromDump (bv_replicator v) (ReplicationKey (bs_configs (bv_storage v))) of
        Inl err \<Rightarrow> v
      | Inr bs \<Rightarrow> v\<lparr>bv_loads := (False, case bs of None \<Rightarrow> [] | Some b \<Rightarrow> b) # bv_loads v\<rparr>)"

definition recover_clear :: "bytes \<Rightarrow> ('b, 'c) bitmap_service \<Rightarrow> ('b, 'c) bitmap_service" where
  "recover_clear b v = set_storage (Clear (bv_storage v)) (v\<lparr>bv_loads := (True, b) # remove1 (False, b) (bv_loads v)\<rparr>)"

definition recover_fill :: "bytes \<Rightarrow> ('b, 'c) bitmap_service \<Rightarrow> ('b, 'c) bitmap_service" where
  "recover_fill b v =
     set_storage (fst (ReadFromBuffer (bv_storage v) b)) (v\<lparr>bv_loads := remove1 (True, b) (bv_loads v)\<rparr>)"

text \<open>A crash: a new process makes a new storage; what was in flight is lost, Redis stays.\<close>

definition crash :: "('b, 'c) bitmap_service \<Rightarrow> ('b, 'c) bitmap_service" where
  "crash v =
     (case NewBitmapStorage (bs_ops (bv_storage v)) (bs_configs (bv_storage v)) (bs_warmer (bv_storage v)) of
        Panic _ \<Rightarrow> v
      | Return s \<Rightarrow> set_storage s (v\<lparr>bv_pending := None, bv_loads := []\<rparr>))"

text \<open>Redis may drop keys by itself when their time to live is over.\<close>

definition redis_expires :: "'c kv_ops \<Rightarrow> 'c \<Rightarrow> 'c \<Rightarrow> bool" where
  "redis_expires ops c c' \<longleftrightarrow> kv_view ops c' \<subseteq>\<^sub>m kv_view ops c"

text \<open>An operation is a client's or, for \<open>Op_Optimize\<close>, the background goroutine's.\<close>

inductive bitmap_step :: "('b, 'c) bitmap_service \<Rightarrow> ('b, 'c) bitmap_service \<Rightarrow> bool" where
  bt_client: "bitmap_step v (set_storage (set_op_run opn (bv_storage v)) v)"
| bt_take: "bv_pending v = None \<Longrightarrow> bitmap_step v (replicate_take v)"
| bt_write: "bitmap_step v (replicate_write v)"
| bt_read: "bitmap_step v (recover_read v)"
| bt_clear: "(False, b) \<in> set (bv_loads v) \<Longrightarrow> bitmap_step v (recover_clear b v)"
| bt_fill: "(True, b) \<in> set (bv_loads v) \<Longrightarrow> bitmap_step v (recover_fill b v)"
| bt_drop: "bitmap_step v (v\<lparr>bv_replicator := fst (redis_DropReplicationKey (bv_replicator v)
    (ReplicationKey (bs_configs (bv_storage v))))\<rparr>)"
| bt_crash: "bitmap_step v (crash v)"
| bt_expire: "redis_expires (rr_ops (bv_replicator v)) (rr_redis (bv_replicator v)) c \<Longrightarrow>
    bitmap_step v (v\<lparr>bv_replicator := (bv_replicator v)\<lparr>rr_redis := c\<rparr>\<rparr>)"

text \<open>At first Redis holds nothing under the key.\<close>

definition bitmap_init :: "('b, 'c) bitmap_service \<Rightarrow> bool" where
  "bitmap_init v \<longleftrightarrow> bs_invar (bv_storage v) \<and> redis_ok (bv_replicator v) \<and>
     kv_view (rr_ops (bv_replicator v)) (rr_redis (bv_replicator v)) (ReplicationKey (bs_configs (bv_storage v))) = None \<and>
     bv_pending v = None \<and> bv_loads v = [] \<and> bv_history v = [bs_elems (bv_storage v)] \<and> bv_acked v = 0"

section \<open>Invariant\<close>

text \<open>The bytes are a dump of a set of the history, at place \<open>i\<close> or later.\<close>

definition snapshot :: "('b, 'c) bitmap_service \<Rightarrow> nat \<Rightarrow> bytes \<Rightarrow> bool" where
  "snapshot v i bs \<longleftrightarrow>
     (\<exists>j. i \<le> j \<and> j < length (bv_history v) \<and> dump_of (bs_ops (bv_storage v)) bs (bv_history v ! j))"

definition bitmap_inv :: "('b, 'c) bitmap_service \<Rightarrow> bool" where
  "bitmap_inv v \<longleftrightarrow> bs_invar (bv_storage v) \<and> redis_ok (bv_replicator v) \<and>
     bv_history v \<noteq> [] \<and> last (bv_history v) = bs_elems (bv_storage v) \<and> bv_acked v < length (bv_history v) \<and>
     (\<forall>i bs. bv_pending v = Some (i, bs) \<longrightarrow>
        bv_acked v \<le> i \<and> i < length (bv_history v) \<and> dump_of (bs_ops (bv_storage v)) bs (bv_history v ! i)) \<and>
     (\<forall>l \<in> set (bv_loads v). snapshot v 0 (snd l)) \<and>
     (\<forall>bs. kv_view (rr_ops (bv_replicator v)) (rr_redis (bv_replicator v))
             (ReplicationKey (bs_configs (bv_storage v))) = Some bs \<longrightarrow> snapshot v (bv_acked v) bs)"

definition demo_bitmap :: "(uint64 list, string \<rightharpoonup> bytes) bitmap_service" where
  "demo_bitmap = \<lparr>bv_storage = list_storage [1, 2], bv_replicator = demo_redis, bv_pending = None, bv_loads = [],
     bv_history = [{1, 2}], bv_acked = 0\<rparr>"

definition demo_replicated :: "(uint64 list, string \<rightharpoonup> bytes) bitmap_service" where
  "demo_replicated = set_storage (UpsertMany (list_storage [1, 2]) [3]) (replicate_write (replicate_take demo_bitmap))"

section \<open>Preservation\<close>

lemma snapshot_set_storage:
  assumes "snapshot v i bs" and "bs_ops s = bs_ops (bv_storage v)"
  shows "snapshot (set_storage s v) i bs"
proof -
  from assms(1) obtain j where "i \<le> j" "j < length (bv_history v)" "dump_of (bs_ops (bv_storage v)) bs (bv_history v ! j)"
    by (auto simp: snapshot_def)
  with assms(2) show ?thesis by (auto simp: snapshot_def set_storage_def nth_append intro!: exI [of _ j])
qed

lemma snapshot_fields [simp]:
  "snapshot (v\<lparr>bv_replicator := r\<rparr>) i bs = snapshot v i bs" "snapshot (v\<lparr>bv_pending := p\<rparr>) i bs = snapshot v i bs"
  "snapshot (v\<lparr>bv_loads := l\<rparr>) i bs = snapshot v i bs" "snapshot (v\<lparr>bv_acked := a\<rparr>) i bs = snapshot v i bs"
  by (simp_all add: snapshot_def)

lemma snapshot_mono: "snapshot v i bs \<Longrightarrow> j \<le> i \<Longrightarrow> snapshot v j bs"
  unfolding snapshot_def using order_trans by blast

text \<open>Whatever becomes of the storage, as long as it keeps library and configuration.\<close>

lemma bitmap_inv_set_storage [inv_intros]:
  assumes "bitmap_inv v" and "bs_ops s = bs_ops (bv_storage v)" and "bs_configs s = bs_configs (bv_storage v)"
  shows "bitmap_inv (set_storage s v)"
proof -
  have "snapshot (set_storage s v) (bv_acked v) bs" if "kv_view (rr_ops (bv_replicator v)) (rr_redis (bv_replicator v))
      (ReplicationKey (bs_configs (bv_storage v))) = Some bs" for bs
    using that assms(1,2) by (auto simp: bitmap_inv_def intro: snapshot_set_storage)
  moreover have "snapshot (set_storage s v) 0 (snd l)" if "l \<in> set (bv_loads v)" for l
    using that assms(1,2) by (auto simp: bitmap_inv_def intro: snapshot_set_storage)
  ultimately show ?thesis
    using assms bs_invar_cong [OF assms(2)] unfolding bitmap_inv_def
    by (auto simp: set_storage_def nth_append)
qed

lemma bitmap_inv_loads:
  "bitmap_inv v \<Longrightarrow> (\<And>l. l \<in> set ls \<Longrightarrow> snapshot v 0 (snd l)) \<Longrightarrow> bitmap_inv (v\<lparr>bv_loads := ls\<rparr>)"
  by (simp add: bitmap_inv_def)

lemma set_op_run_fields [simp]: "bs_configs (set_op_run opn s) = bs_configs s" "bs_ops (set_op_run opn s) = bs_ops s"
  by (cases opn; simp add: UpsertMany_def RemoveMany_def Clear_def optimize_def)+

lemma storage_configs [simp]: "bs_configs (Clear s) = bs_configs s" "bs_configs (fst (ReadFromBuffer s b)) = bs_configs s"
  by (simp_all add: Clear_def ReadFromBuffer_def split: prod.splits sum.splits)

lemma bitmap_inv_take [inv_intros]:
  assumes "bitmap_inv v"
  shows "bitmap_inv (replicate_take v)"
proof (cases "\<exists>bs. GetBytesFromBitmap (bv_storage v) = Inr (Some bs)")
  case True
  then obtain bs where bs: "GetBytesFromBitmap (bv_storage v) = Inr (Some bs)" by blast
  have inv: "bs_invar (bv_storage v)" "bs_elems (bv_storage v) = bv_history v ! (length (bv_history v) - 1)"
    using assms last_conv_nth [of "bv_history v"] by (simp_all add: bitmap_inv_def)
  from GetBytes_dump [OF inv(1) bs] have "dump_of (bs_ops (bv_storage v)) bs (bv_history v ! (length (bv_history v) - 1))"
    by (simp only: inv(2))
  with assms bs show ?thesis by (auto simp: replicate_take_def bitmap_inv_def)
qed (use assms in \<open>auto simp: replicate_take_def split: sum.splits option.splits\<close>)

lemma bitmap_inv_write [inv_intros]:
  assumes "bitmap_inv v"
  shows "bitmap_inv (replicate_write v)"
proof (cases "bv_pending v")
  case None
  with assms show ?thesis by (simp add: replicate_write_def)
next
  case (Some p)
  obtain i bs where p: "p = (i, bs)" by fastforce
  let ?k = "ReplicationKey (bs_configs (bv_storage v))" and ?r = "bv_replicator v"
  obtain r err where w: "writeBytesToDump ?r ?k bs (ReplicationTtl (bs_configs (bv_storage v))) = (r, err)" by fastforce
  have i: "bv_acked v \<le> i" "i < length (bv_history v)" "snapshot v i bs" and ok: "redis_ok ?r"
    using assms Some p by (auto simp: bitmap_inv_def snapshot_def)
  have old: "kv_view (rr_ops ?r) (rr_redis ?r) ?k = Some b \<Longrightarrow> snapshot v (bv_acked v) b" for b
    using assms by (simp add: bitmap_inv_def)
  note view = redis_write_view [OF ok w]
  have "snapshot v (if err = None then i else bv_acked v) b" if "kv_view (rr_ops r) (rr_redis r) ?k = Some b" for b
    using that view i old [of b] snapshot_mono [OF i(3) i(1)] by (auto split: if_splits)
  moreover have "redis_ok r" using view(1) ok by (simp add: redis_ok_def)
  ultimately show ?thesis using assms Some p w i by (simp add: replicate_write_def bitmap_inv_def)
qed

text \<open>What a read from Redis yields is what lies there.\<close>

lemma readBytesFromDump_view:
  assumes "redis_ok r" and "readBytesFromDump r k = Inr b"
  shows "kv_view (rr_ops r) (rr_redis r) k = Some (case b of None \<Rightarrow> [] | Some b \<Rightarrow> b)"
  using assms unfolding redis_ok_def kv_contract_def readBytesFromDump_def
  by (auto split: sum.splits option.splits dest!: spec [of _ "rr_redis r"] spec [of _ k])

lemma bitmap_inv_read [inv_intros]:
  assumes "bitmap_inv v"
  shows "bitmap_inv (recover_read v)"
proof (cases "readBytesFromDump (bv_replicator v) (ReplicationKey (bs_configs (bv_storage v)))")
  case (Inr b)
  let ?b = "case b of None \<Rightarrow> [] | Some b \<Rightarrow> b"
  have "kv_view (rr_ops (bv_replicator v)) (rr_redis (bv_replicator v)) (ReplicationKey (bs_configs (bv_storage v))) = Some ?b"
    using readBytesFromDump_view [OF _ Inr] assms by (simp add: bitmap_inv_def)
  then have "snapshot v (bv_acked v) ?b" using assms by (simp add: bitmap_inv_def)
  then have "snapshot v 0 ?b" by (rule snapshot_mono) simp
  moreover have "\<forall>l \<in> set (bv_loads v). snapshot v 0 (snd l)" using assms by (simp add: bitmap_inv_def)
  ultimately show ?thesis
    unfolding recover_read_def Inr sum.case by (intro bitmap_inv_loads [OF assms]) auto
qed (use assms in \<open>simp add: recover_read_def\<close>)

lemma bitmap_inv_clear [inv_intros]:
  assumes "bitmap_inv v" and "(False, b) \<in> set (bv_loads v)"
  shows "bitmap_inv (recover_clear b v)"
proof -
  have "\<forall>l \<in> set (bv_loads v). snapshot v 0 (snd l)" using assms(1) by (simp add: bitmap_inv_def)
  then have "bitmap_inv (v\<lparr>bv_loads := (True, b) # remove1 (False, b) (bv_loads v)\<rparr>)"
    using assms(2) by (intro bitmap_inv_loads [OF assms(1)]) (auto dest: set_remove1_subset [THEN subsetD])
  then show ?thesis unfolding recover_clear_def by (rule bitmap_inv_set_storage) simp_all
qed

lemma bitmap_inv_fill [inv_intros]:
  assumes "bitmap_inv v"
  shows "bitmap_inv (recover_fill b v)"
proof -
  have "\<forall>l \<in> set (bv_loads v). snapshot v 0 (snd l)" using assms(1) by (simp add: bitmap_inv_def)
  then have "bitmap_inv (v\<lparr>bv_loads := remove1 (True, b) (bv_loads v)\<rparr>)"
    by (intro bitmap_inv_loads [OF assms]) (metis notin_set_remove1)
  then show ?thesis unfolding recover_fill_def by (rule bitmap_inv_set_storage) simp_all
qed

text \<open>Redis loses keys: nothing new appears under the key.\<close>

lemma bitmap_inv_redis:
  assumes "bitmap_inv v" and "rr_ops r = rr_ops (bv_replicator v)"
    and "kv_view (rr_ops r) (rr_redis r) \<subseteq>\<^sub>m kv_view (rr_ops r) (rr_redis (bv_replicator v))"
  shows "bitmap_inv (v\<lparr>bv_replicator := r\<rparr>)"
proof -
  let ?k = "ReplicationKey (bs_configs (bv_storage v))"
  have "kv_view (rr_ops r) (rr_redis r) ?k = Some bs \<Longrightarrow>
      kv_view (rr_ops (bv_replicator v)) (rr_redis (bv_replicator v)) ?k = Some bs" for bs
    using assms(2,3) by (metis domI map_le_def)
  with assms(1,2) show ?thesis by (simp add: bitmap_inv_def redis_ok_def)
qed

lemma bitmap_inv_drop [inv_intros]:
  assumes "bitmap_inv v"
  shows "bitmap_inv (v\<lparr>bv_replicator := fst (redis_DropReplicationKey (bv_replicator v) k)\<rparr>)"
proof (rule bitmap_inv_redis [OF assms])
  let ?r = "bv_replicator v"
  obtain c e where d: "kv_Del (rr_ops ?r) (rr_redis ?r) k = (c, e)" by fastforce
  have "kv_contract (rr_ops ?r)" using assms by (simp add: bitmap_inv_def redis_ok_def)
  with d have "kv_view (rr_ops ?r) c = (kv_view (rr_ops ?r) (rr_redis ?r))(k := None) \<or>
      kv_view (rr_ops ?r) c = kv_view (rr_ops ?r) (rr_redis ?r)" unfolding kv_contract_def by blast
  with d show "rr_ops (fst (redis_DropReplicationKey ?r k)) = rr_ops ?r"
    and "kv_view (rr_ops (fst (redis_DropReplicationKey ?r k))) (rr_redis (fst (redis_DropReplicationKey ?r k)))
      \<subseteq>\<^sub>m kv_view (rr_ops (fst (redis_DropReplicationKey ?r k))) (rr_redis ?r)"
    by (auto simp: redis_DropReplicationKey_def map_le_def split: if_splits)
qed

lemma bitmap_inv_crash [inv_intros]:
  assumes "bitmap_inv v"
  shows "bitmap_inv (crash v)"
proof -
  have "bitmap_inv (v\<lparr>bv_pending := None, bv_loads := []\<rparr>)" using assms by (simp add: bitmap_inv_def)
  from bitmap_inv_set_storage [OF this] assms show ?thesis
    by (auto simp: crash_def NewBitmapStorage_def split: option.splits call.splits)
qed

interpretation replication: inductive_invariant bitmap_init bitmap_step bitmap_inv
proof
  show "bitmap_init v \<Longrightarrow> bitmap_inv v" for v :: "('a, 'b) bitmap_service"
    by (simp add: bitmap_init_def bitmap_inv_def)
  show "bitmap_inv v \<Longrightarrow> bitmap_step v w \<Longrightarrow> bitmap_inv w" for v w :: "('a, 'b) bitmap_service"
    by (rotate_tac, induction rule: bitmap_step.induct)
      (auto intro: inv_intros bitmap_inv_redis simp: redis_expires_def)
qed

lemma bv_acked_mono:
  assumes "bitmap_step v w" and "bitmap_inv v"
  shows "bv_acked v \<le> bv_acked w"
  using assms
proof (cases rule: bitmap_step.cases)
  case bt_write
  then show ?thesis
    using assms(2) by (auto simp: replicate_write_def bitmap_inv_def split: option.splits prod.splits)
qed (auto simp: set_storage_def replicate_take_def recover_read_def recover_clear_def recover_fill_def crash_def
    split: sum.splits option.splits call.splits)

lemma bv_acked_mono_steps:
  assumes "bitmap_step\<^sup>*\<^sup>* v w" and "bitmap_inv v"
  shows "bv_acked v \<le> bv_acked w \<and> bitmap_inv w"
  using assms
proof (induction rule: rtranclp_induct)
  case (step w w')
  then have "bitmap_inv w'" by (auto intro: replication.inv_step)
  with step bv_acked_mono [OF step.hyps(2)] show ?case by force
qed simp

section \<open>Properties\<close>




lemmas demo_bitmap_defs = demo_bitmap_def replicate_take_def replicate_write_def GetBytesFromBitmap_def
  list_storage_def list_roaring_def writeBytesToDump_def demo_redis_def map_kv_def set_storage_def


end
