(* ===== verification/Clickhouse.thy ===== *)
theory Clickhouse
  imports Utils
begin

text \<open>
  The package \<^verbatim>\<open>database/clickhouse\<close>: opening and replacing a connection, and the classification of
  errors that tells callers whether to reconnect or to wait.

  \<^verbatim>\<open>clickhouse.OpenDB\<close> yields a new handle: handles are indices of a list of databases that only grows.
  The results of the ping, of the wait and of closing a handle are parameters.
\<close>

section \<open>Errors\<close>

text \<open>
  \<^verbatim>\<open>errors.As\<close> for \<^verbatim>\<open>*clickhouse.Exception\<close>: the first exception of the error tree, depth first;
  \<^verbatim>\<open>errors.Is\<close>: whether the target occurs in the tree.
\<close>

fun errors_As :: "go_error \<Rightarrow> (int \<times> string) option"
  and errors_As_list :: "go_error list \<Rightarrow> (int \<times> string) option" where
  "errors_As (Exception c m) = Some (c, m)"
| "errors_As (Wrap m es) = errors_As_list es"
| "errors_As (ErrorString m) = None"
| "errors_As (CtxError c) = None"
| "errors_As ErrUnexpectedEOF = None"
| "errors_As_list [] = None"
| "errors_As_list (e # es) = (case errors_As e of Some x \<Rightarrow> Some x | None \<Rightarrow> errors_As_list es)"

fun errors_Is :: "go_error \<Rightarrow> go_error \<Rightarrow> bool"
  and errors_Is_list :: "go_error list \<Rightarrow> go_error \<Rightarrow> bool" where
  "errors_Is (Wrap m es) target \<longleftrightarrow> Wrap m es = target \<or> errors_Is_list es target"
| "errors_Is (Exception c m) target \<longleftrightarrow> Exception c m = target"
| "errors_Is (ErrorString m) target \<longleftrightarrow> ErrorString m = target"
| "errors_Is (CtxError c) target \<longleftrightarrow> CtxError c = target"
| "errors_Is ErrUnexpectedEOF target \<longleftrightarrow> ErrUnexpectedEOF = target"
| "errors_Is_list [] target \<longleftrightarrow> False"
| "errors_Is_list (e # es) target \<longleftrightarrow> errors_Is e target \<or> errors_Is_list es target"

definition stubOrExc :: "(int \<times> string) option \<Rightarrow> go_error option \<Rightarrow> int \<times> string" where
  "stubOrExc exc err =
     (case exc of
        None \<Rightarrow> (7777, ''nil stub exception: '' @ (case err of None \<Rightarrow> ''%!w(<nil>)'' | Some e \<Rightarrow> Error e))
      | Some x \<Rightarrow> x)"

definition reconnect_codes :: "int list" where
  "reconnect_codes = [60, 81, 3, 159, 209, 210, 425, 999, 1002]"

definition err_As :: "go_error option \<Rightarrow> (int \<times> string) option" where
  "err_As err = (case err of None \<Rightarrow> None | Some e \<Rightarrow> errors_As e)"

definition err_Is :: "go_error option \<Rightarrow> go_error \<Rightarrow> bool" where
  "err_Is err target = (case err of None \<Rightarrow> False | Some e \<Rightarrow> errors_Is e target)"

definition NeedReconnect :: "go_error option \<Rightarrow> bool \<times> (int \<times> string) option" where
  "NeedReconnect err =
     (let exc = err_As err in
      if (case exc of None \<Rightarrow> False | Some (c, m) \<Rightarrow> c \<in> set reconnect_codes)
      then (True, Some (stubOrExc exc err))
      else if err_Is err (CtxError DeadlineExceeded) \<or> err_Is err ErrUnexpectedEOF
      then (True, Some (stubOrExc exc err))
      else (False, exc))"

definition NeedWait :: "go_error option \<Rightarrow> bool \<times> duration \<times> (int \<times> string)" where
  "NeedWait err =
     (let exc = err_As err in
      case exc of
        None \<Rightarrow> (False, 0, stubOrExc exc err)
      | Some (c, m) \<Rightarrow>
          if c = 201 then (True, 5 * Second, stubOrExc exc err)
          else if c = 202 \<or> c = 203 then (True, 1 * Second, stubOrExc exc err)
          else if c = 252 \<or> c = 285 then (True, 2 * Second, stubOrExc exc err)
          else (False, 0, stubOrExc exc err))"

section \<open>Connections\<close>

record Clickhouse =
  ch_Host :: string
  ch_Port :: int
  ch_Username :: string
  ch_Password :: string
  ch_Database :: string
  ch_DialTimeout :: duration
  ch_MaxOpenConn :: int
  ch_MaxIdleConn :: int
  ch_ConnMaxIdleTime :: duration
  ch_ConnMaxLifeTime :: duration

record sql_DB =
  db_Addr :: "string \<times> int"
  db_Protocol :: string
  db_Compression :: string
  db_Auth :: "string \<times> string \<times> string option"
  db_DialTimeout :: duration
  db_MaxOpenConns :: int
  db_MaxIdleConns :: int
  db_ConnMaxIdleTime :: duration
  db_ConnMaxLifetime :: duration
  db_closed :: bool

record Connection =
  conn :: nat
  conn_cfg :: Clickhouse

definition with_defaults :: "Clickhouse \<Rightarrow> Clickhouse" where
  "with_defaults cfg =
     (let cfg = (if ch_DialTimeout cfg = 0 then cfg\<lparr>ch_DialTimeout := 3 * Second\<rparr> else cfg);
          cfg = (if ch_MaxOpenConn cfg = 0 then cfg\<lparr>ch_MaxOpenConn := 1\<rparr> else cfg);
          cfg = (if ch_MaxIdleConn cfg = 0 then cfg\<lparr>ch_MaxIdleConn := 1\<rparr> else cfg);
          cfg = (if ch_ConnMaxIdleTime cfg = 0 then cfg\<lparr>ch_ConnMaxIdleTime := 30 * Minute\<rparr> else cfg);
          cfg = (if ch_ConnMaxLifeTime cfg = 0 then cfg\<lparr>ch_ConnMaxLifeTime := 24 * Hour\<rparr> else cfg)
      in cfg)"

definition OpenDB :: "Clickhouse \<Rightarrow> sql_DB" where
  "OpenDB cfg =
     \<lparr>db_Addr = (ch_Host cfg, ch_Port cfg), db_Protocol = ''native'', db_Compression = ''lz4'',
      db_Auth = (ch_Username cfg, ch_Password cfg,
                 if ch_Database cfg \<noteq> '''' then Some (ch_Database cfg) else None),
      db_DialTimeout = ch_DialTimeout cfg, db_MaxOpenConns = ch_MaxOpenConn cfg,
      db_MaxIdleConns = ch_MaxIdleConn cfg, db_ConnMaxIdleTime = ch_ConnMaxIdleTime cfg,
      db_ConnMaxLifetime = ch_ConnMaxLifeTime cfg, db_closed = False\<rparr>"

text \<open>
  \<open>ping\<close> is the error of \<^verbatim>\<open>PingContext\<close>, \<open>wait\<close> the error of \<^verbatim>\<open>WaitOrCtx\<close>, should it be called.
\<close>

definition NewClickhouseConnection ::
    "go_error option \<Rightarrow> ctx_error option \<Rightarrow> Clickhouse \<Rightarrow> sql_DB list \<Rightarrow> sql_DB list \<times> (go_error + Connection)" where
  "NewClickhouseConnection ping wait cfg dbs =
     (let cfg = with_defaults cfg;
          db = length dbs;
          dbs = dbs @ [OpenDB cfg]
      in if ping \<noteq> None then
           (case wait of
              Some err \<Rightarrow> (dbs, Inl (CtxError err))
            | None \<Rightarrow> (dbs, Inr \<lparr>conn = db, conn_cfg = cfg\<rparr>))
         else (dbs, Inr \<lparr>conn = db, conn_cfg = cfg\<rparr>))"

definition close_db :: "nat \<Rightarrow> sql_DB list \<Rightarrow> sql_DB list" where
  "close_db i dbs = (if i < length dbs then dbs[i := (dbs ! i)\<lparr>db_closed := True\<rparr>] else dbs)"

definition GetClickHouseConfig :: "Connection \<Rightarrow> Clickhouse" where
  "GetClickHouseConfig c = conn_cfg c"

definition GetDB :: "Connection \<Rightarrow> nat" where
  "GetDB c = conn c"

definition Reconnect ::
    "go_error option \<Rightarrow> ctx_error option \<Rightarrow> go_error option \<Rightarrow> Clickhouse \<Rightarrow> Connection \<times> sql_DB list
       \<Rightarrow> (Connection \<times> sql_DB list) \<times> go_error option" where
  "Reconnect ping wait close_err cfg cd =
     (case cd of (c, dbs) \<Rightarrow>
        (case NewClickhouseConnection ping wait cfg dbs of
           (dbs1, Inl err) \<Rightarrow>
             ((c, dbs1), Some (wrapf ''failed to reconnect to Clickhouse'' err))
         | (dbs1, Inr newConn) \<Rightarrow>
             (let old = conn c; c1 = c\<lparr>conn := conn newConn\<rparr>; dbs2 = close_db old dbs1
              in case close_err of
                   Some err \<Rightarrow>
                     ((c1, dbs2), Some (wrapf ''failed to close old Clickhouse connection'' err))
                 | None \<Rightarrow> ((c1, dbs2), None))))"

text \<open>\<^verbatim>\<open>Shutdown\<close> and \<^verbatim>\<open>disconnectFromDB\<close>; an error of closing is only logged by the former.\<close>

definition disconnectFromDB :: "go_error option \<Rightarrow> Connection \<times> sql_DB list \<Rightarrow> (Connection \<times> sql_DB list) \<times> go_error option" where
  "disconnectFromDB close_err cd = (case cd of (c, dbs) \<Rightarrow> ((c, close_db (conn c) dbs), close_err))"

definition Shutdown :: "go_error option \<Rightarrow> Connection \<times> sql_DB list \<Rightarrow> Connection \<times> sql_DB list" where
  "Shutdown close_err cd = fst (disconnectFromDB close_err cd)"

section \<open>Lemmas\<close>

lemma with_defaults_fields:
  "ch_DialTimeout (with_defaults cfg) = (if ch_DialTimeout cfg = 0 then 3 * Second else ch_DialTimeout cfg)"
  "ch_MaxOpenConn (with_defaults cfg) = (if ch_MaxOpenConn cfg = 0 then 1 else ch_MaxOpenConn cfg)"
  "ch_MaxIdleConn (with_defaults cfg) = (if ch_MaxIdleConn cfg = 0 then 1 else ch_MaxIdleConn cfg)"
  "ch_ConnMaxIdleTime (with_defaults cfg) = (if ch_ConnMaxIdleTime cfg = 0 then 30 * Minute else ch_ConnMaxIdleTime cfg)"
  "ch_ConnMaxLifeTime (with_defaults cfg) = (if ch_ConnMaxLifeTime cfg = 0 then 24 * Hour else ch_ConnMaxLifeTime cfg)"
  "ch_Host (with_defaults cfg) = ch_Host cfg" "ch_Port (with_defaults cfg) = ch_Port cfg"
  "ch_Username (with_defaults cfg) = ch_Username cfg" "ch_Password (with_defaults cfg) = ch_Password cfg"
  "ch_Database (with_defaults cfg) = ch_Database cfg"
  by (simp_all add: with_defaults_def Let_def)

lemma NeedWait_Some:
  assumes "err_As err = Some (c, m)"
  shows "NeedWait err = (c \<in> {201, 202, 203, 252, 285},
    if c = 201 then 5 * Second else if c \<in> {202, 203} then Second
    else if c \<in> {252, 285} then 2 * Second else 0, (c, m))"
  using assms by (simp add: NeedWait_def stubOrExc_def)

lemma NeedReconnect_Some:
  assumes "err_As err = Some (c, m)"
  shows "NeedReconnect err =
    (c \<in> set reconnect_codes \<or> err_Is err (CtxError DeadlineExceeded) \<or> err_Is err ErrUnexpectedEOF,
     Some (c, m))"
  using assms by (simp add: NeedReconnect_def stubOrExc_def Let_def)

lemma codes_disjoint: "c \<in> {201, 202, 203, 252, 285} \<Longrightarrow> c \<notin> set reconnect_codes"
  by (auto simp: reconnect_codes_def)

section \<open>Properties\<close>

text \<open>
  The two classifications do not compete: an error that calls for waiting calls for reconnecting as
  well only when a deadline or an unexpected end of file is wrapped beside the exception, and then its
  code still decides the pause. \<^verbatim>\<open>NeedWait\<close> always yields an exception, \<^verbatim>\<open>NeedReconnect\<close> does unless it
  says no and there is none. The pause is positive exactly when waiting is called for.
\<close>

theorem NeedWait_NeedReconnect:
  assumes "NeedWait err = (w, d, x)" and "NeedReconnect err = (r, y)"
  shows "(w \<longrightarrow> r \<longrightarrow> err_Is err (CtxError DeadlineExceeded) \<or> err_Is err ErrUnexpectedEOF) \<and>
    (w \<longleftrightarrow> 0 < d) \<and> (y = None \<longrightarrow> \<not> r \<and> err_As err = None \<and> fst x = 7777) \<and>
    (\<forall>c. err_As err = Some c \<longrightarrow> x = c \<and> y = Some c)"
proof (cases "err_As err")
  case None
  with assms show ?thesis
    by (auto simp: NeedWait_def NeedReconnect_def Let_def stubOrExc_def split: if_splits)
next
  case (Some cm)
  obtain c m where "cm = (c, m)" by fastforce
  with Some have e: "err_As err = Some (c, m)" by simp
  note f = NeedWait_Some [OF e] NeedReconnect_Some [OF e]
  have "w \<longleftrightarrow> c \<in> {201, 202, 203, 252, 285}" "w \<longleftrightarrow> 0 < d" "x = (c, m)" "y = Some (c, m)"
    "r \<longleftrightarrow> c \<in> set reconnect_codes \<or> err_Is err (CtxError DeadlineExceeded) \<or> err_Is err ErrUnexpectedEOF"
    using f assms by (simp_all add: Second_def)
  with e codes_disjoint [of c] show ?thesis by auto
qed

theorem NeedWait_NeedReconnect_witness:
  "NeedWait (Some (Wrap ''insert'' [Exception 252 ''too many parts''])) = (True, 2 * Second, (252, ''too many parts'')) \<and>
   \<not> fst (NeedReconnect (Some (Wrap ''insert'' [Exception 252 ''too many parts''])))"
proof -
  let ?e = "Some (Wrap ''insert'' [Exception 252 ''too many parts''])"
  have w: "NeedWait ?e = (True, 2 * Second, (252, ''too many parts''))"
    by (simp add: NeedWait_def err_As_def stubOrExc_def)
  obtain r y where r: "NeedReconnect ?e = (r, y)" by fastforce
  from NeedWait_NeedReconnect [OF w r] have "\<not> r" by (auto simp: err_Is_def)
  with w r show ?thesis by simp
qed

text \<open>
  \<^verbatim>\<open>NewClickhouseConnection\<close> fails only when the ping failed and the context ended during the pause;
  a failed ping alone still gives a connection. The handle is open, has the configured limits with the
  defaults for zero values, and carries the database name only if there is one. On failure the opened
  handle stays open and nothing refers to it.
\<close>

theorem NewClickhouseConnection_spec:
  assumes "NewClickhouseConnection ping wait cfg dbs = (dbs', res)"
  shows "dbs' = dbs @ [OpenDB (with_defaults cfg)] \<and>
    \<not> db_closed (dbs' ! length dbs) \<and> db_MaxOpenConns (dbs' ! length dbs) \<noteq> 0 \<and>
    (snd (snd (db_Auth (dbs' ! length dbs))) = None \<longleftrightarrow> ch_Database cfg = '''') \<and>
    (case res of
       Inl err \<Rightarrow> ping \<noteq> None \<and> (\<exists>e. wait = Some e \<and> err = CtxError e)
     | Inr c \<Rightarrow> GetDB c = length dbs \<and> GetClickHouseConfig c = with_defaults cfg)"
proof -
  have "ch_MaxOpenConn (with_defaults cfg) \<noteq> 0" "ch_Database (with_defaults cfg) = ch_Database cfg"
    by (simp_all add: with_defaults_fields)
  with assms show ?thesis
    by (auto simp: NewClickhouseConnection_def Let_def OpenDB_def GetDB_def GetClickHouseConfig_def
        split: option.splits if_splits)
qed

theorem NewClickhouseConnection_spec_witness:
  "\<exists>c. snd (NewClickhouseConnection (Some ErrUnexpectedEOF) None
        \<lparr>ch_Host = ''db'', ch_Port = 9000, ch_Username = ''u'', ch_Password = ''p'', ch_Database = '''',
         ch_DialTimeout = 0, ch_MaxOpenConn = 0, ch_MaxIdleConn = 0, ch_ConnMaxIdleTime = 0,
         ch_ConnMaxLifeTime = 0\<rparr> []) = Inr c \<and> GetDB c = 0"
proof -
  let ?cfg = "\<lparr>ch_Host = ''db'', ch_Port = 9000, ch_Username = ''u'', ch_Password = ''p'', ch_Database = '''',
         ch_DialTimeout = 0, ch_MaxOpenConn = 0, ch_MaxIdleConn = 0, ch_ConnMaxIdleTime = 0,
         ch_ConnMaxLifeTime = 0\<rparr>"
  obtain dbs res where r: "NewClickhouseConnection (Some ErrUnexpectedEOF) None ?cfg [] = (dbs, res)" by fastforce
  from NewClickhouseConnection_spec [OF r] r show ?thesis by (cases res) auto
qed

text \<open>
  \<^verbatim>\<open>Reconnect\<close> keeps the old connection when no new one can be made; otherwise it uses the new handle and
  has closed the old one, also when it reports that closing failed. In every case the configuration
  \<^verbatim>\<open>GetClickHouseConfig\<close> shows is the one from before, not the one just used.
\<close>

theorem Reconnect_spec:
  assumes "conn c < length dbs" and "Reconnect ping wait close_err cfg (c, dbs) = ((c', dbs'), err)"
  shows "GetClickHouseConfig c' = GetClickHouseConfig c \<and>
    (if ping \<noteq> None \<and> wait \<noteq> None then GetDB c' = GetDB c \<and> err \<noteq> None \<and> take (length dbs) dbs' = dbs
     else GetDB c' = length dbs \<and> dbs' ! GetDB c' = OpenDB (with_defaults cfg) \<and>
       db_closed (dbs' ! GetDB c) \<and> (err = None \<longleftrightarrow> close_err = None))"
  using assms
  by (auto simp: Reconnect_def NewClickhouseConnection_def Let_def GetClickHouseConfig_def GetDB_def
      close_db_def nth_append split: if_splits option.splits sum.splits prod.splits)

theorem Reconnect_spec_witness:
  "\<exists>cfg c dbs c' dbs'. Reconnect None None None cfg (c, dbs) = ((c', dbs'), None) \<and>
     with_defaults cfg \<noteq> GetClickHouseConfig c'"
proof -
  let ?cfg = "\<lparr>ch_Host = ''db'', ch_Port = 9000, ch_Username = ''u'', ch_Password = ''p'', ch_Database = '''',
         ch_DialTimeout = 0, ch_MaxOpenConn = 0, ch_MaxIdleConn = 0, ch_ConnMaxIdleTime = 0,
         ch_ConnMaxLifeTime = 0\<rparr>"
  let ?c = "\<lparr>conn = 0, conn_cfg = with_defaults ?cfg\<rparr>" and ?dbs = "[OpenDB (with_defaults ?cfg)]"
  let ?new = "?cfg\<lparr>ch_Host := ''db2''\<rparr>"
  obtain c' dbs' err where r: "Reconnect None None None ?new (?c, ?dbs) = ((c', dbs'), err)"
    by (metis prod.collapse)
  have "conn ?c < length ?dbs" by simp
  from Reconnect_spec [OF this r] have "err = None" "GetClickHouseConfig c' = with_defaults ?cfg"
    by (simp_all add: GetClickHouseConfig_def)
  moreover have "ch_Host (with_defaults ?new) \<noteq> ch_Host (with_defaults ?cfg)"
    by (simp add: with_defaults_fields)
  ultimately show ?thesis using r by metis
qed

end
