(* ===== verification/Postgres.thy ===== *)
theory Postgres
  imports Go_Prelude
begin

text \<open>
  The package \<^verbatim>\<open>database/postgres\<close>: the configuration of a \<^verbatim>\<open>pgxpool\<close>. \<^verbatim>\<open>ParseConfig\<close> and
  \<^verbatim>\<open>NewWithConfig\<close> belong to pgx and are parameters: \<open>parse\<close> yields the configuration for a connection
  string or nil, \<open>open_pool\<close> the pool for a configuration or nil. Sizes are converted from \<^verbatim>\<open>int\<close> (64 bits) to
  \<^verbatim>\<open>int32\<close>, which keeps the low 32 bits.
\<close>

record Configs =
  pg_Host :: string
  pg_Port :: string
  pg_Username :: string
  pg_Password :: string
  pg_Database :: string
  pg_SSLMode :: string
  pg_MaxOpenedConnections :: int
  pg_ApplicationName :: string
  pg_ConnectionMaxIdleTime :: duration
  pg_ConnectionMaxLifeTime :: duration
  pg_HealthCheckPeriod :: duration
  pg_ConnectTimeout :: duration
  pg_MaxConnLifeTimeJitter :: duration

record pool_config =
  pc_MaxConns :: "32 word"
  pc_MinConns :: "32 word"
  pc_MaxConnIdleTime :: duration
  pc_MaxConnLifetime :: duration
  pc_MaxConnLifetimeJitter :: duration
  pc_ConnectTimeout :: duration
  pc_HealthCheckPeriod :: duration
  pc_RuntimeParams :: "string \<rightharpoonup> string"

definition dsn :: "Configs \<Rightarrow> string" where
  "dsn config = ''postgres://'' @ pg_Username config @ '':'' @ pg_Password config @ ''@'' @ pg_Host config @
     '':'' @ pg_Port config @ ''/'' @ pg_Database config @ ''?sslmode='' @ pg_SSLMode config"

definition int32 :: "int \<Rightarrow> 32 word" where
  "int32 n = word_of_int n"

definition pool_settings :: "Configs \<Rightarrow> pool_config \<Rightarrow> pool_config" where
  "pool_settings config pc =
     (let maxConnections = int32 (pg_MaxOpenedConnections config);
          minConnections = int32 (go_div (sint maxConnections) 4)
      in pc\<lparr>pc_MaxConns := maxConnections, pc_MinConns := minConnections,
            pc_MaxConnIdleTime := pg_ConnectionMaxIdleTime config,
            pc_MaxConnLifetime := pg_ConnectionMaxLifeTime config,
            pc_MaxConnLifetimeJitter := pg_MaxConnLifeTimeJitter config,
            pc_ConnectTimeout := pg_ConnectTimeout config,
            pc_HealthCheckPeriod := pg_HealthCheckPeriod config,
            pc_RuntimeParams := (pc_RuntimeParams pc)(''application_name'' \<mapsto> pg_ApplicationName config)\<rparr>)"

text \<open>\<open>None\<close> is a nil connection; a connection may hold a nil pool.\<close>

definition NewPostgresConnection ::
    "(string \<Rightarrow> pool_config option) \<Rightarrow> (pool_config \<Rightarrow> 'p option) \<Rightarrow> Configs \<Rightarrow> 'p option option" where
  "NewPostgresConnection parse open_pool config =
     (case parse (dsn config) of
        None \<Rightarrow> None
      | Some pc \<Rightarrow> Some (open_pool (pool_settings config pc)))"

text \<open>\<^verbatim>\<open>Stop\<close> closes the pool and panics when connection or pool is nil.\<close>

definition Stop :: "('p \<Rightarrow> 'p) \<Rightarrow> 'p option option \<Rightarrow> 'p option option call" where
  "Stop close c =
     (case c of Some (Some p) \<Rightarrow> Return (Some (Some (close p)))
      | _ \<Rightarrow> Panic ''invalid memory address or nil pointer dereference'')"

definition GetPool :: "'p option option \<Rightarrow> 'p option call" where
  "GetPool c = (case c of None \<Rightarrow> Panic ''invalid memory address or nil pointer dereference'' | Some p \<Rightarrow> Return p)"

definition demo_configs :: "int \<Rightarrow> Configs" where
  "demo_configs n = \<lparr>pg_Host = ''h'', pg_Port = ''5432'', pg_Username = ''u'', pg_Password = ''p'',
     pg_Database = ''d'', pg_SSLMode = ''disable'', pg_MaxOpenedConnections = n, pg_ApplicationName = ''app'',
     pg_ConnectionMaxIdleTime = 0, pg_ConnectionMaxLifeTime = 0, pg_HealthCheckPeriod = 0,
     pg_ConnectTimeout = 0, pg_MaxConnLifeTimeJitter = 0\<rparr>"

definition demo_pool :: pool_config where
  "demo_pool = \<lparr>pc_MaxConns = 4, pc_MinConns = 0, pc_MaxConnIdleTime = 0, pc_MaxConnLifetime = 0,
     pc_MaxConnLifetimeJitter = 0, pc_ConnectTimeout = 0, pc_HealthCheckPeriod = 0,
     pc_RuntimeParams = Map.empty\<rparr>"

section \<open>Lemmas\<close>

lemma sint_int32: "- (2 ^ 31) \<le> n \<Longrightarrow> n < 2 ^ 31 \<Longrightarrow> sint (int32 n) = n"
  by (simp add: int32_def signed_of_int signed_take_bit_int_eq_self)

lemma sint_int32_wrap:
  assumes "2 ^ 31 \<le> n" and "n < 2 ^ 32"
  shows "sint (int32 n) = n - 2 ^ 32"
proof -
  have "int32 n = int32 (n - 2 ^ 32)"
    by (simp add: int32_def word_of_int_eq_iff take_bit_eq_mod minus_mod_self2)
  with assms sint_int32 [of "n - 2 ^ 32"] show ?thesis by simp
qed

section \<open>Properties\<close>



end
