(* ===== verification/Redis_Client.thy ===== *)
theory Redis_Client
  imports Go_Prelude
begin

text \<open>
  The package \<^verbatim>\<open>redis\<close>: functional options over the two option structs of go-redis, and the choice
  between a standalone and a sentinel client. The parsers of connection strings are parameters:
  \<open>master_name\<close> is the query parameter \<^verbatim>\<open>url.Parse\<close> finds, \<open>parse\<close> and \<open>parse_failover\<close> are \<^verbatim>\<open>ParseURL\<close> and
  \<^verbatim>\<open>ParseFailoverURL\<close>. A client is known by the options it was made with. The ping at the end only
  prints its error.
\<close>

section \<open>Options\<close>

record redis_Options =
  so_Addr :: string
  so_Password :: string
  so_DialTimeout :: duration
  so_ReadTimeout :: duration
  so_MaxRetries :: int
  so_MaxRetryBackoff :: duration

record redis_FailoverOptions =
  fo_MasterName :: string
  fo_SentinelAddrs :: "string list"
  fo_Password :: string
  fo_SentinelPassword :: string
  fo_DialTimeout :: duration
  fo_ReadTimeout :: duration
  fo_MaxRetries :: int
  fo_MaxRetryBackoff :: duration

datatype redis_option =
    WithDialTimeout duration
  | WithReadTimeout duration
  | WithMaxRetries int
  | WithMaxRetryBackoff duration
  | WithPassword string
  | WithSentinelPassword string

fun applyStandalone :: "redis_option \<Rightarrow> redis_Options \<Rightarrow> redis_Options" where
  "applyStandalone (WithDialTimeout t) opts = opts\<lparr>so_DialTimeout := t\<rparr>"
| "applyStandalone (WithReadTimeout t) opts = opts\<lparr>so_ReadTimeout := t\<rparr>"
| "applyStandalone (WithMaxRetries n) opts = opts\<lparr>so_MaxRetries := n\<rparr>"
| "applyStandalone (WithMaxRetryBackoff t) opts = opts\<lparr>so_MaxRetryBackoff := t\<rparr>"
| "applyStandalone (WithPassword p) opts = opts\<lparr>so_Password := p\<rparr>"
| "applyStandalone (WithSentinelPassword p) opts = opts"

fun applyFailover :: "redis_option \<Rightarrow> redis_FailoverOptions \<Rightarrow> redis_FailoverOptions" where
  "applyFailover (WithDialTimeout t) opts = opts\<lparr>fo_DialTimeout := t\<rparr>"
| "applyFailover (WithReadTimeout t) opts = opts\<lparr>fo_ReadTimeout := t\<rparr>"
| "applyFailover (WithMaxRetries n) opts = opts\<lparr>fo_MaxRetries := n\<rparr>"
| "applyFailover (WithMaxRetryBackoff t) opts = opts\<lparr>fo_MaxRetryBackoff := t\<rparr>"
| "applyFailover (WithPassword p) opts = opts\<lparr>fo_Password := p\<rparr>"
| "applyFailover (WithSentinelPassword p) opts = opts\<lparr>fo_SentinelPassword := p\<rparr>"

definition defaultOptions :: "redis_option list" where
  "defaultOptions = [WithDialTimeout (10 * Second), WithReadTimeout (3 * Second), WithMaxRetries 5,
     WithMaxRetryBackoff (2 * Second)]"

section \<open>Clients\<close>

datatype redis_Client = StandaloneClient redis_Options | FailoverClient redis_FailoverOptions

definition makeSentinelClient ::
    "(string \<Rightarrow> go_error + redis_FailoverOptions) \<Rightarrow> string \<Rightarrow> redis_option list \<Rightarrow> go_error + redis_Client" where
  "makeSentinelClient parse_failover dsn options =
     (case parse_failover dsn of
        Inl err \<Rightarrow> Inl (wrapf ''parse redis failover dsn'' err)
      | Inr opts \<Rightarrow> Inr (FailoverClient (fold applyFailover options opts)))"

definition makeStandaloneClient ::
    "(string \<Rightarrow> go_error + redis_Options) \<Rightarrow> string \<Rightarrow> redis_option list \<Rightarrow> go_error + redis_Client" where
  "makeStandaloneClient parse dsn options =
     (case parse dsn of
        Inl err \<Rightarrow> Inl (wrapf ''parse redis dsn'' err)
      | Inr opts \<Rightarrow> Inr (StandaloneClient (fold applyStandalone options opts)))"

definition NewRedisClient ::
    "(string \<Rightarrow> go_error + string) \<Rightarrow> (string \<Rightarrow> go_error + redis_Options)
       \<Rightarrow> (string \<Rightarrow> go_error + redis_FailoverOptions) \<Rightarrow> string \<Rightarrow> redis_option list
       \<Rightarrow> go_error + redis_Client" where
  "NewRedisClient master_name parse parse_failover dsn options =
     (case master_name dsn of
        Inl err \<Rightarrow> Inl (wrapf ''parse dsn'' err)
      | Inr master \<Rightarrow>
          (let allOptions = defaultOptions @ options;
               client = (if master \<noteq> '''' then makeSentinelClient parse_failover dsn allOptions
                         else makeStandaloneClient parse dsn allOptions)
           in case client of
                Inl err \<Rightarrow> Inl (wrapf ''failed to create redis client'' err)
              | Inr c \<Rightarrow> Inr c))"

text \<open>The last option of a kind in a list, or a default.\<close>

definition last_given :: "(redis_option \<Rightarrow> 'a option) \<Rightarrow> redis_option list \<Rightarrow> 'a \<Rightarrow> 'a" where
  "last_given sel options d = fold (\<lambda>opt x. case sel opt of None \<Rightarrow> x | Some y \<Rightarrow> y) options d"

fun dial_timeout_of :: "redis_option \<Rightarrow> duration option" where
  "dial_timeout_of (WithDialTimeout t) = Some t"
| "dial_timeout_of _ = None"

fun read_timeout_of :: "redis_option \<Rightarrow> duration option" where
  "read_timeout_of (WithReadTimeout t) = Some t"
| "read_timeout_of _ = None"

fun max_retries_of :: "redis_option \<Rightarrow> int option" where
  "max_retries_of (WithMaxRetries n) = Some n"
| "max_retries_of _ = None"

fun password_of :: "redis_option \<Rightarrow> string option" where
  "password_of (WithPassword p) = Some p"
| "password_of _ = None"

definition demo_parse :: "string \<Rightarrow> go_error + redis_Options" where
  "demo_parse d = Inr \<lparr>so_Addr = d, so_Password = ''secret'', so_DialTimeout = Second, so_ReadTimeout = Second,
     so_MaxRetries = 1, so_MaxRetryBackoff = Second\<rparr>"

section \<open>Lemmas\<close>

lemma fold_applyStandalone:
  "so_DialTimeout (fold applyStandalone options opts) = last_given dial_timeout_of options (so_DialTimeout opts)"
  "so_ReadTimeout (fold applyStandalone options opts) = last_given read_timeout_of options (so_ReadTimeout opts)"
  "so_MaxRetries (fold applyStandalone options opts) = last_given max_retries_of options (so_MaxRetries opts)"
  "so_Password (fold applyStandalone options opts) = last_given password_of options (so_Password opts)"
  "so_Addr (fold applyStandalone options opts) = so_Addr opts"
proof (induction options arbitrary: opts)
  case (Cons opt options)
  {
    case 1
    show ?case using Cons(1) by (cases opt) (simp_all add: last_given_def)
  next
    case 2
    show ?case using Cons(2) by (cases opt) (simp_all add: last_given_def)
  next
    case 3
    show ?case using Cons(3) by (cases opt) (simp_all add: last_given_def)
  next
    case 4
    show ?case using Cons(4) by (cases opt) (simp_all add: last_given_def)
  next
    case 5
    show ?case using Cons(5) by (cases opt) simp_all
  }
qed (simp_all add: last_given_def)

section \<open>Properties\<close>

text \<open>
  A standalone client takes its address and password from the connection string, unless an option
  gives a password; its dial timeout, read timeout and number of retries are those of the last option
  given or else the package's defaults, so the values a connection string sets for them are never used.
  A sentinel password changes nothing.
\<close>

theorem standalone_client_options:
  assumes "master_name dsn = Inr ''''" and "parse dsn = Inr opts"
  shows "\<exists>o'. NewRedisClient master_name parse parse_failover dsn options = Inr (StandaloneClient o') \<and>
    so_Addr o' = so_Addr opts \<and>
    so_Password o' = last_given password_of options (so_Password opts) \<and>
    so_DialTimeout o' = last_given dial_timeout_of options (10 * Second) \<and>
    so_ReadTimeout o' = last_given read_timeout_of options (3 * Second) \<and>
    so_MaxRetries o' = last_given max_retries_of options 5"
  using assms
  by (simp add: NewRedisClient_def makeStandaloneClient_def Let_def fold_applyStandalone defaultOptions_def
      last_given_def)

theorem standalone_client_options_witness:
  "\<exists>o'. NewRedisClient (\<lambda>_. Inr '''') demo_parse (\<lambda>_. Inl ErrUnexpectedEOF) ''localhost:6379''
        [WithMaxRetries 2, WithSentinelPassword ''x''] = Inr (StandaloneClient o') \<and>
     so_Password o' = ''secret'' \<and> so_DialTimeout o' = 10 * Second \<and> so_MaxRetries o' = 2"
proof -
  obtain opts where p: "demo_parse ''localhost:6379'' = Inr opts" "so_Password opts = ''secret''"
    by (simp add: demo_parse_def)
  from standalone_client_options [of "\<lambda>_. Inr ''''" "''localhost:6379''" demo_parse opts
      "\<lambda>_. Inl ErrUnexpectedEOF" "[WithMaxRetries 2, WithSentinelPassword ''x'']"] p
  show ?thesis by (auto simp: last_given_def)
qed

end
