(* ===== verification/Http_Server.thy ===== *)
theory Http_Server
  imports Utils
begin

text \<open>
  The HTTP servers of \<^verbatim>\<open>server/chi.go\<close> and \<^verbatim>\<open>server/gorilla.go\<close>: response writers, middlewares, server
  options and shutdown.

  A \<^verbatim>\<open>ResponseWriter\<close> of \<^verbatim>\<open>net/http\<close> is the record \<open>response\<close>: the first final status is the one that is
  sent, informational codes are sent at once and do not count, writing or flushing sends 200 when nothing
  was sent; codes outside 100 to 999, which \<^verbatim>\<open>net/http\<close> answers with a panic, are left out. One execution of a handler is the list of the calls it makes on its writer, which may end with
  a panic; a middleware maps handlers to handlers. Handlers depend on the request's context.
\<close>

section \<open>net/http\<close>

record response =
  rs_header :: "string \<rightharpoonup> string list"
  rs_info :: "int list"
  rs_status :: "int option"
  rs_body :: bytes

definition new_response :: response where
  "new_response = \<lparr>rs_header = Map.empty, rs_info = [], rs_status = None, rs_body = []\<rparr>"

definition StatusOK :: int where "StatusOK = 200"
definition StatusInternalServerError :: int where "StatusInternalServerError = 500"
definition StatusServiceUnavailable :: int where "StatusServiceUnavailable = 503"

definition informational :: "int \<Rightarrow> bool" where
  "informational code \<longleftrightarrow> 100 \<le> code \<and> code \<le> 199 \<and> code \<noteq> 101"

definition http_WriteHeader :: "int \<Rightarrow> response \<Rightarrow> response" where
  "http_WriteHeader code w =
     (if rs_status w \<noteq> None then w
      else if informational code then w\<lparr>rs_info := rs_info w @ [code]\<rparr>
      else w\<lparr>rs_status := Some code\<rparr>)"

definition http_Flush :: "response \<Rightarrow> response" where
  "http_Flush w = http_WriteHeader StatusOK w"

definition http_Write :: "bytes \<Rightarrow> response \<Rightarrow> response" where
  "http_Write b w = (http_WriteHeader StatusOK w)\<lparr>rs_body := rs_body w @ b\<rparr>"

definition Header_Set :: "string \<Rightarrow> string \<Rightarrow> response \<Rightarrow> response" where
  "Header_Set k v w = w\<lparr>rs_header := (rs_header w)(k \<mapsto> [v])\<rparr>"

definition Header_Add :: "string \<Rightarrow> string \<Rightarrow> response \<Rightarrow> response" where
  "Header_Add k v w =
     w\<lparr>rs_header := (rs_header w)(k \<mapsto> (case rs_header w k of None \<Rightarrow> [] | Some vs \<Rightarrow> vs) @ [v])\<rparr>"

text \<open>The status the client sees once the handler has returned: nothing sent means 200.\<close>

definition sent_status :: "response \<Rightarrow> int" where
  "sent_status w = (case rs_status w of None \<Rightarrow> StatusOK | Some c \<Rightarrow> c)"

datatype rw_call = CWriteHeader int | CWrite bytes | CHeader string string | CFlush | CReadFrom bytes

type_synonym handler = "ctx \<Rightarrow> rw_call list \<times> string option"

text \<open>A server or router answers a request by its path.\<close>

type_synonym path_handler = "string \<Rightarrow> handler"

fun http_call :: "rw_call \<Rightarrow> response \<Rightarrow> response" where
  "http_call (CWriteHeader code) w = http_WriteHeader code w"
| "http_call (CWrite b) w = http_Write b w"
| "http_call (CHeader k v) w = Header_Set k v w"
| "http_call CFlush w = http_Flush w"
| "http_call (CReadFrom b) w = http_Write b w"

definition serve :: "handler \<Rightarrow> ctx \<Rightarrow> response \<Rightarrow> response \<times> string option" where
  "serve h r w = (case h r of (calls, p) \<Rightarrow> (fold http_call calls w, p))"

section \<open>Chi: response writer\<close>

record loggingChiResponseWriter =
  lc_rw :: response
  lc_statusCode :: int
  lc_wroteHeader :: bool

definition newLoggingChiResponseWriter :: "response \<Rightarrow> loggingChiResponseWriter" where
  "newLoggingChiResponseWriter w = \<lparr>lc_rw = w, lc_statusCode = StatusOK, lc_wroteHeader = False\<rparr>"

definition chi_WriteHeader :: "int \<Rightarrow> loggingChiResponseWriter \<Rightarrow> loggingChiResponseWriter" where
  "chi_WriteHeader code l =
     (if lc_wroteHeader l then l
      else l\<lparr>lc_statusCode := code, lc_rw := http_WriteHeader code (lc_rw l), lc_wroteHeader := True\<rparr>)"

definition chi_Write :: "bytes \<Rightarrow> loggingChiResponseWriter \<Rightarrow> loggingChiResponseWriter" where
  "chi_Write b l =
     (let l1 = (if \<not> lc_wroteHeader l then chi_WriteHeader StatusOK l else l)
      in l1\<lparr>lc_rw := http_Write b (lc_rw l1)\<rparr>)"

text \<open>\<^verbatim>\<open>Flush\<close> and \<^verbatim>\<open>ReadFrom\<close> go straight to the wrapped writer.\<close>

definition chi_Flush :: "loggingChiResponseWriter \<Rightarrow> loggingChiResponseWriter" where
  "chi_Flush l = l\<lparr>lc_rw := http_Flush (lc_rw l)\<rparr>"

definition chi_ReadFrom :: "bytes \<Rightarrow> loggingChiResponseWriter \<Rightarrow> loggingChiResponseWriter" where
  "chi_ReadFrom b l = l\<lparr>lc_rw := http_Write b (lc_rw l)\<rparr>"

fun chi_call :: "rw_call \<Rightarrow> loggingChiResponseWriter \<Rightarrow> loggingChiResponseWriter" where
  "chi_call (CWriteHeader code) l = chi_WriteHeader code l"
| "chi_call (CWrite b) l = chi_Write b l"
| "chi_call (CHeader k v) l = l\<lparr>lc_rw := Header_Set k v (lc_rw l)\<rparr>"
| "chi_call CFlush l = chi_Flush l"
| "chi_call (CReadFrom b) l = chi_ReadFrom b l"

text \<open>\<^verbatim>\<open>Hijack\<close> and \<^verbatim>\<open>Push\<close>: delegated when the wrapped writer supports them.\<close>

definition Hijack :: "'a option \<Rightarrow> go_error + 'a" where
  "Hijack hijacker = (case hijacker of None \<Rightarrow> Inl (ErrorString ''feature not supported'') | Some c \<Rightarrow> Inr c)"

definition Push :: "(string \<Rightarrow> go_error option) option \<Rightarrow> string \<Rightarrow> go_error option" where
  "Push pusher target = (case pusher of None \<Rightarrow> Some (ErrorString ''feature not supported'') | Some p \<Rightarrow> p target)"

section \<open>Chi: middlewares\<close>

definition correlationChiIDCtxKey :: string where "correlationChiIDCtxKey = ''correlation_id''"

definition LoggerChiContextMiddleware :: "handler \<Rightarrow> handler" where
  "LoggerChiContextMiddleware h r = h r"

text \<open>A panic of the handler becomes status 500, if no status has been sent.\<close>

definition RecoverChiMiddleware :: "handler \<Rightarrow> handler" where
  "RecoverChiMiddleware h r =
     (case h r of (calls, None) \<Rightarrow> (calls, None)
      | (calls, Some rec) \<Rightarrow> (calls @ [CWriteHeader StatusInternalServerError], None))"

text \<open>\<open>i\<close> names the cancel function, \<open>t\<close> is the instant of the request.\<close>

definition RequestTimeout :: "nat \<Rightarrow> instant \<Rightarrow> duration \<Rightarrow> handler \<Rightarrow> handler" where
  "RequestTimeout i t d h r = h (WithTimeout i (t + d) r)"

text \<open>
  \<^verbatim>\<open>LoggingChiMiddleware\<close>: the response and the status that is logged; a panic of the handler passes through
  and nothing is logged.
\<close>

definition LoggingChiMiddleware ::
    "string \<Rightarrow> handler \<Rightarrow> ctx \<Rightarrow> response \<Rightarrow> response \<times> int option \<times> string option" where
  "LoggingChiMiddleware corrID h r w =
     (let lrw = newLoggingChiResponseWriter (Header_Set ''X-Correlation-ID'' corrID w)
      in case h (WithValue correlationChiIDCtxKey corrID r) of
           (calls, p) \<Rightarrow>
             let lrw = fold chi_call calls lrw
             in (lc_rw lrw, if p = None then Some (lc_statusCode lrw) else None, p))"

text \<open>
  The same middleware as a map of handlers, so that it can be put into a chain: the calls that reach the
  writer behind the logging writer. The flag tells whether a header was written.
\<close>

fun logged_calls :: "bool \<Rightarrow> rw_call list \<Rightarrow> rw_call list" where
  "logged_calls wrote [] = []"
| "logged_calls wrote (CWriteHeader code # cs) =
     (if wrote then logged_calls True cs else CWriteHeader code # logged_calls True cs)"
| "logged_calls wrote (CWrite b # cs) =
     (if wrote then CWrite b # logged_calls True cs
      else CWriteHeader StatusOK # CWrite b # logged_calls True cs)"
| "logged_calls wrote (c # cs) = c # logged_calls wrote cs"

definition logging_chi :: "string \<Rightarrow> handler \<Rightarrow> handler" where
  "logging_chi corrID h r =
     (case h (WithValue correlationChiIDCtxKey corrID r) of
        (calls, p) \<Rightarrow> (CHeader ''X-Correlation-ID'' corrID # logged_calls False calls, p))"

section \<open>Chi: states of the server\<close>

datatype serverState = stateInitial | stateRunning | stateDraining | stateShutdown

text \<open>The states in the order in which a server goes through them.\<close>

fun state_index :: "serverState \<Rightarrow> nat" where
  "state_index stateInitial = 0"
| "state_index stateRunning = 1"
| "state_index stateDraining = 2"
| "state_index stateShutdown = 3"

instantiation serverState :: linorder
begin

definition less_eq_serverState :: "serverState \<Rightarrow> serverState \<Rightarrow> bool" where
  "less_eq_serverState a b \<longleftrightarrow> state_index a \<le> state_index b"

definition less_serverState :: "serverState \<Rightarrow> serverState \<Rightarrow> bool" where
  "less_serverState a b \<longleftrightarrow> state_index a < state_index b"

instance
proof
  fix a b :: serverState
  show "a \<le> b \<Longrightarrow> b \<le> a \<Longrightarrow> a = b" by (cases a; cases b) (simp_all add: less_eq_serverState_def)
qed (auto simp: less_eq_serverState_def less_serverState_def)

end

record PreShutdownState =
  ps_State :: serverState
  ps_Need :: bool
  ps_TimeForDraining :: duration
  ps_TimeForShutdown :: duration

definition NewPreShutdownState :: "bool \<Rightarrow> duration \<Rightarrow> duration \<Rightarrow> PreShutdownState" where
  "NewPreShutdownState need timeForDraining timeForShutdown =
     \<lparr>ps_State = stateInitial, ps_Need = need, ps_TimeForDraining = timeForDraining,
      ps_TimeForShutdown = timeForShutdown\<rparr>"

text \<open>\<^verbatim>\<open>fmt.Sprintf("%.0f", d.Seconds())\<close>: whole seconds, halves to even.\<close>

definition round_seconds :: "duration \<Rightarrow> int" where
  "round_seconds d =
     (let q = d div Second; r = d mod Second
      in if 2 * r < Second then q else if Second < 2 * r then q + 1 else if even q then q else q + 1)"

fun decimal :: "nat \<Rightarrow> string" where
  "decimal n = (if n < 10 then [char_of (48 + n)] else decimal (n div 10) @ [char_of (48 + n mod 10)])"

definition int_string :: "int \<Rightarrow> string" where
  "int_string n = (if n < 0 then ''-'' @ decimal (nat (- n)) else decimal (nat n))"

declare decimal.simps [simp del]

definition DrainMiddleware ::
    "PreShutdownState option \<Rightarrow> rw_call list option \<Rightarrow> handler \<Rightarrow> handler" where
  "DrainMiddleware state responseCallback h r =
     (case state of
        Some s \<Rightarrow>
          if ps_Need s \<and> ps_State s = stateDraining then
            (case responseCallback of
               Some calls \<Rightarrow> (calls, None)
             | None \<Rightarrow> ([CHeader ''Retry-After'' (int_string (round_seconds (ps_TimeForShutdown s))),
                          CWriteHeader StatusServiceUnavailable], None))
          else h r
      | None \<Rightarrow> h r)"

section \<open>Chi: the server\<close>

text \<open>Loggers, TLS settings and context functions are pointers or function values, known by a number; \<open>None\<close> is nil.\<close>

record http_Server =
  sv_Addr :: string
  sv_ReadTimeout :: duration
  sv_WriteTimeout :: duration
  sv_IdleTimeout :: duration
  sv_ReadHeaderTimeout :: duration
  sv_MaxHeaderBytes :: int
  sv_KeepAlives :: bool
  sv_ErrorLog :: "nat option"
  sv_BaseContext :: "nat option"
  sv_ConnContext :: "nat option"
  sv_TLSConfig :: "nat option"
  sv_Handler :: path_handler

datatype server_option =
    WithReadTimeout duration
  | WithWriteTimeout duration
  | WithIdleTimeout duration
  | WithReadHeaderTimeout duration
  | WithMaxHeaderBytes int
  | WithErrorLog "nat option"
  | WithBaseContext "nat option"
  | WithConnContext "nat option"
  | WithTLSConfig "nat option"
  | WithDisableKeepAlives bool

fun server_opt :: "server_option \<Rightarrow> http_Server \<Rightarrow> http_Server" where
  "server_opt (WithReadTimeout d) s = s\<lparr>sv_ReadTimeout := d\<rparr>"
| "server_opt (WithWriteTimeout d) s = s\<lparr>sv_WriteTimeout := d\<rparr>"
| "server_opt (WithIdleTimeout d) s = s\<lparr>sv_IdleTimeout := d\<rparr>"
| "server_opt (WithReadHeaderTimeout d) s = s\<lparr>sv_ReadHeaderTimeout := d\<rparr>"
| "server_opt (WithMaxHeaderBytes n) s = s\<lparr>sv_MaxHeaderBytes := n\<rparr>"
| "server_opt (WithErrorLog l) s = s\<lparr>sv_ErrorLog := l\<rparr>"
| "server_opt (WithBaseContext f) s = s\<lparr>sv_BaseContext := f\<rparr>"
| "server_opt (WithConnContext f) s = s\<lparr>sv_ConnContext := f\<rparr>"
| "server_opt (WithTLSConfig c) s = s\<lparr>sv_TLSConfig := c\<rparr>"
| "server_opt (WithDisableKeepAlives b) s = s\<lparr>sv_KeepAlives := \<not> b\<rparr>"

text \<open>
  The routers of chi and gorilla are library values: their constructor, \<^verbatim>\<open>Use\<close>, \<^verbatim>\<open>Get\<close>, \<^verbatim>\<open>Route\<close> and
  \<^verbatim>\<open>ServeHTTP\<close>. \<open>ro_view\<close> gives the middlewares and the routes of a router, for the contract only.
\<close>

record 'r router_ops =
  ro_NewRouter :: 'r
  ro_Use :: "(handler \<Rightarrow> handler) list \<Rightarrow> 'r \<Rightarrow> 'r"
  ro_Get :: "string \<Rightarrow> handler \<Rightarrow> 'r \<Rightarrow> 'r"
  ro_Route :: "string \<Rightarrow> ('r \<Rightarrow> 'r) \<Rightarrow> 'r \<Rightarrow> 'r"
  ro_ServeHTTP :: "'r \<Rightarrow> path_handler"
  ro_view :: "'r \<Rightarrow> (handler \<Rightarrow> handler) list \<times> (string \<times> handler) list"

text \<open>Middlewares around a handler, the first one outermost.\<close>

definition wrap_all :: "(handler \<Rightarrow> handler) list \<Rightarrow> handler \<Rightarrow> handler" where
  "wrap_all mws h = foldr (\<lambda>mw h. mw h) mws h"

text \<open>
  What the documentation of chi says of routers with literal paths: middlewares are added before the
  routes and run in the order of their addition, \<^verbatim>\<open>Route\<close> mounts a new router under a prefix, and a
  request for a registered path runs through the middlewares to its handler.
\<close>

definition router_contract :: "'r router_ops \<Rightarrow> bool" where
  "router_contract lib \<longleftrightarrow>
     ro_view lib (ro_NewRouter lib) = ([], []) \<and>
     (\<forall>mws r. snd (ro_view lib r) = [] \<longrightarrow> ro_view lib (ro_Use lib mws r) = (fst (ro_view lib r) @ mws, [])) \<and>
     (\<forall>p h r. ro_view lib (ro_Get lib p h r) = (fst (ro_view lib r), snd (ro_view lib r) @ [(p, h)])) \<and>
     (\<forall>p f r. ro_view lib (ro_Route lib p f r) =
        (fst (ro_view lib r), snd (ro_view lib r) @
           map (\<lambda>(q, h). (p @ q, wrap_all (fst (ro_view lib (f (ro_NewRouter lib)))) h))
             (snd (ro_view lib (f (ro_NewRouter lib)))))) \<and>
     (\<forall>r path h. map_of (snd (ro_view lib r)) path = Some h \<longrightarrow>
        ro_ServeHTTP lib r path = wrap_all (fst (ro_view lib r)) h)"

text \<open>A router that is the pair of its middlewares and routes, and answers 404 to other paths, obeys it.\<close>

definition list_router :: "((handler \<Rightarrow> handler) list \<times> (string \<times> handler) list) router_ops" where
  "list_router =
     \<lparr>ro_NewRouter = ([], []),
      ro_Use = (\<lambda>mws (ms, rs). (ms @ mws, rs)),
      ro_Get = (\<lambda>p h (ms, rs). (ms, rs @ [(p, h)])),
      ro_Route = (\<lambda>p f (ms, rs). case f ([], []) of (ms', rs') \<Rightarrow> (ms, rs @ map (\<lambda>(q, h). (p @ q, wrap_all ms' h)) rs')),
      ro_ServeHTTP = (\<lambda>(ms, rs) path. case map_of rs path of
         None \<Rightarrow> wrap_all ms (\<lambda>_. ([CWriteHeader 404], None)) | Some h \<Rightarrow> wrap_all ms h),
      ro_view = (\<lambda>r. r)\<rparr>"

definition ifNil :: "path_handler option \<Rightarrow> path_handler \<Rightarrow> path_handler" where
  "ifNil balancer router = (case balancer of None \<Rightarrow> router | Some b \<Rightarrow> b)"

record 'r HTTPServerChi =
  ch_port :: string
  ch_Router :: 'r
  ch_opts :: "server_option list"
  ch_preShutdownState :: "PreShutdownState option"

definition newHTTPServer :: "'r router_ops \<Rightarrow> string \<Rightarrow> 'r HTTPServerChi" where
  "newHTTPServer lib port =
     \<lparr>ch_port = port, ch_Router = ro_NewRouter lib, ch_opts = [], ch_preShutdownState = None\<rparr>"

definition ApplyServerOptions :: "server_option list \<Rightarrow> 'r HTTPServerChi \<Rightarrow> 'r HTTPServerChi" where
  "ApplyServerOptions opts s = s\<lparr>ch_opts := ch_opts s @ opts\<rparr>"

text \<open>\<^verbatim>\<open>run\<close> builds the server and marks the state as running, if the state is wanted.\<close>

definition new_server :: "string \<Rightarrow> path_handler \<Rightarrow> http_Server" where
  "new_server addr h = \<lparr>sv_Addr = addr, sv_ReadTimeout = 0, sv_WriteTimeout = 0, sv_IdleTimeout = 0,
     sv_ReadHeaderTimeout = 0, sv_MaxHeaderBytes = 0, sv_KeepAlives = True, sv_ErrorLog = None,
     sv_BaseContext = None, sv_ConnContext = None, sv_TLSConfig = None, sv_Handler = h\<rparr>"

definition chi_run :: "'r router_ops \<Rightarrow> path_handler option \<Rightarrow> 'r HTTPServerChi \<Rightarrow> 'r HTTPServerChi \<times> http_Server" where
  "chi_run lib balancer s =
     (let srv = new_server (ch_port s) (ifNil balancer (ro_ServeHTTP lib (ch_Router s)));
          srv = fold server_opt (ch_opts s) srv
      in (case ch_preShutdownState s of
            Some p \<Rightarrow> if ps_Need p then s\<lparr>ch_preShutdownState := Some (p\<lparr>ps_State := stateRunning\<rparr>)\<rparr> else s
          | None \<Rightarrow> s, srv))"

definition chi_apply :: "('r HTTPServerChi \<Rightarrow> 'r HTTPServerChi) \<Rightarrow> 'r HTTPServerChi \<Rightarrow> 'r HTTPServerChi" where
  "chi_apply routes s = routes s"

definition CreateHTTPChiServer ::
    "'r router_ops \<Rightarrow> ('r HTTPServerChi \<Rightarrow> 'r HTTPServerChi) \<Rightarrow> string \<Rightarrow> PreShutdownState option
       \<Rightarrow> (handler \<Rightarrow> handler) list \<Rightarrow> 'r HTTPServerChi \<times> http_Server" where
  "CreateHTTPChiServer lib routes port preShutdownState mwf =
     (let s = newHTTPServer lib port;
          s = (if mwf \<noteq> [] then s\<lparr>ch_Router := ro_Use lib mwf (ch_Router s)\<rparr> else s);
          s = chi_apply routes s
      in chi_run lib None (s\<lparr>ch_preShutdownState := preShutdownState\<rparr>))"

text \<open>
  The goroutine that serves, for both servers: an error other than \<^verbatim>\<open>ErrServerClosed\<close> makes it panic, which
  \<^verbatim>\<open>GoRecover\<close> swallows; the deferred \<^verbatim>\<open>cancel\<close> runs in any case. The state says whether it was called.
\<close>

definition ErrServerClosed :: go_error where "ErrServerClosed = ErrorString ''http: Server closed''"

definition serve_goroutine :: "go_error option \<Rightarrow> bool \<times> goroutine_end" where
  "serve_goroutine err =
     GoRecover False
       (\<lambda>cancelled. if err \<noteq> None \<and> err \<noteq> Some ErrServerClosed then (True, Some ''server stopped'') else (True, None))
       False"

text \<open>
  \<^verbatim>\<open>shutdown\<close> called at the instant \<open>t\<close>: the context given to \<^verbatim>\<open>srv.Shutdown\<close>, the instant of that call, and the
  states of the server with the instants at which they are set (\<open>took\<close> is the time \<^verbatim>\<open>srv.Shutdown\<close> takes).
\<close>

definition chi_shutdown ::
    "nat \<Rightarrow> instant \<Rightarrow> duration \<Rightarrow> PreShutdownState option \<Rightarrow> ctx \<times> instant \<times> (instant \<times> serverState) list" where
  "chi_shutdown i t took pss =
     (let timeout = (case pss of None \<Rightarrow> 5 * Second | Some p \<Rightarrow> ps_TimeForShutdown p);
          c = WithTimeout i (t + timeout) Background
      in case pss of
           Some p \<Rightarrow>
             if ps_Need p then
               (let called = t + max 0 (ps_TimeForDraining p)
                in (c, called, [(t, stateDraining), (called + took, stateShutdown)]))
             else (c, t, [])
         | None \<Rightarrow> (c, t, []))"

section \<open>Gorilla\<close>

record loggingResponseWriter =
  lg_rw :: response
  lg_statusCode :: int

definition newLoggingResponseWriter :: "response \<Rightarrow> loggingResponseWriter" where
  "newLoggingResponseWriter w = \<lparr>lg_rw = w, lg_statusCode = StatusOK\<rparr>"

definition gorilla_WriteHeader :: "int \<Rightarrow> loggingResponseWriter \<Rightarrow> loggingResponseWriter" where
  "gorilla_WriteHeader code l = l\<lparr>lg_statusCode := code, lg_rw := http_WriteHeader code (lg_rw l)\<rparr>"

definition gorilla_Write :: "bytes \<Rightarrow> loggingResponseWriter \<Rightarrow> loggingResponseWriter" where
  "gorilla_Write b l = l\<lparr>lg_rw := http_Write b (lg_rw l)\<rparr>"

text \<open>This writer implements neither \<^verbatim>\<open>Flusher\<close> nor \<^verbatim>\<open>ReaderFrom\<close>: a flush is not possible, a copy uses \<^verbatim>\<open>Write\<close>.\<close>

fun gorilla_call :: "rw_call \<Rightarrow> loggingResponseWriter \<Rightarrow> loggingResponseWriter" where
  "gorilla_call (CWriteHeader code) l = gorilla_WriteHeader code l"
| "gorilla_call (CWrite b) l = gorilla_Write b l"
| "gorilla_call (CHeader k v) l = l\<lparr>lg_rw := Header_Set k v (lg_rw l)\<rparr>"
| "gorilla_call CFlush l = l"
| "gorilla_call (CReadFrom b) l = gorilla_Write b l"

definition gorilla_Hijack :: "'a option \<Rightarrow> go_error + 'a" where
  "gorilla_Hijack hijacker =
     (case hijacker of None \<Rightarrow> Inl (ErrorString ''the ResponseWriter does not implement http.Hijacker'')
      | Some c \<Rightarrow> Inr c)"

definition LoggerContextMiddleware :: "handler \<Rightarrow> ctx \<Rightarrow> response \<Rightarrow> response \<times> string option" where
  "LoggerContextMiddleware h r w =
     (case h r of (calls, p) \<Rightarrow> (lg_rw (fold gorilla_call calls (newLoggingResponseWriter w)), p))"

definition RecoverMiddleware :: "handler \<Rightarrow> handler" where
  "RecoverMiddleware h r =
     (case h r of (calls, None) \<Rightarrow> (calls, None)
      | (calls, Some rec) \<Rightarrow> (calls @ [CWriteHeader StatusInternalServerError], None))"

definition correlationIDCtxKey :: string where "correlationIDCtxKey = ''correlation_id''"

text \<open>The deferred function logs also when the handler panics.\<close>

definition LoggingMiddleware ::
    "string \<Rightarrow> handler \<Rightarrow> ctx \<Rightarrow> response \<Rightarrow> response \<times> int \<times> string option" where
  "LoggingMiddleware correlationID h r w =
     (let lrw = newLoggingResponseWriter (Header_Add ''X-Correlation-ID'' correlationID w)
      in case h (WithValue correlationIDCtxKey correlationID r) of
           (calls, p) \<Rightarrow>
             let lrw = fold gorilla_call calls lrw in (lg_rw lrw, lg_statusCode lrw, p))"

record 'r HTTPServer =
  gs_port :: string
  gs_Router :: 'r

definition RunHTTPServer ::
    "'r router_ops \<Rightarrow> path_handler option \<Rightarrow> (handler \<Rightarrow> handler) list \<Rightarrow> 'r HTTPServer \<Rightarrow> 'r HTTPServer \<times> http_Server" where
  "RunHTTPServer lib balancer mwf s =
     (let s = s\<lparr>gs_Router := ro_Use lib mwf (gs_Router s)\<rparr>
      in (s, case balancer of
               Some b \<Rightarrow> new_server (gs_port s) b
             | None \<Rightarrow> new_server (gs_port s) (ro_ServeHTTP lib (gs_Router s))))"

definition newSimpleHTTPServer :: "'r router_ops \<Rightarrow> string \<Rightarrow> 'r HTTPServer" where
  "newSimpleHTTPServer lib port = \<lparr>gs_port = port, gs_Router = ro_NewRouter lib\<rparr>"

definition ToConfigureHandlers :: "('r HTTPServer \<Rightarrow> 'r HTTPServer) \<Rightarrow> 'r HTTPServer \<Rightarrow> 'r HTTPServer" where
  "ToConfigureHandlers configure s = configure s"

definition CreateHttpServer ::
    "'r router_ops \<Rightarrow> ('r HTTPServer \<Rightarrow> 'r HTTPServer) \<Rightarrow> string \<Rightarrow> (handler \<Rightarrow> handler) list
       \<Rightarrow> 'r HTTPServer \<times> http_Server" where
  "CreateHttpServer lib router port mwf =
     RunHTTPServer lib None mwf (ToConfigureHandlers router (newSimpleHTTPServer lib port))"

definition gorilla_shutdown :: "nat \<Rightarrow> instant \<Rightarrow> ctx \<times> instant" where
  "gorilla_shutdown i t = (WithTimeout i (t + 5 * Second) Background, t)"

section \<open>Lemmas\<close>

text \<open>A call that sends a final status at most once it is known: no informational code, flush or copy.\<close>

definition plain_call :: "rw_call \<Rightarrow> bool" where
  "plain_call c = (case c of CWriteHeader code \<Rightarrow> \<not> informational code | CWrite b \<Rightarrow> True
     | CHeader k v \<Rightarrow> True | CFlush \<Rightarrow> False | CReadFrom b \<Rightarrow> False)"

definition chi_agrees :: "loggingChiResponseWriter \<Rightarrow> bool" where
  "chi_agrees l \<longleftrightarrow> (lc_wroteHeader l \<longleftrightarrow> rs_status (lc_rw l) \<noteq> None) \<and> lc_statusCode l = sent_status (lc_rw l)"

lemma chi_call_plain:
  assumes "plain_call c" and "chi_agrees l"
  shows "lc_rw (chi_call c l) = http_call c (lc_rw l) \<and> chi_agrees (chi_call c l)"
  using assms
  by (cases c)
    (auto simp: plain_call_def chi_agrees_def chi_WriteHeader_def chi_Write_def http_WriteHeader_def
      http_Write_def sent_status_def Header_Set_def informational_def StatusOK_def)

lemma chi_calls_plain:
  assumes "\<forall>c \<in> set calls. plain_call c" and "chi_agrees l"
  shows "lc_rw (fold chi_call calls l) = fold http_call calls (lc_rw l) \<and> chi_agrees (fold chi_call calls l)"
  using assms by (induction calls arbitrary: l) (simp_all add: chi_call_plain)

lemma http_call_status: "rs_status w = Some c \<Longrightarrow> rs_status (http_call call w) = Some c"
  by (cases call) (simp_all add: http_WriteHeader_def http_Write_def Header_Set_def http_Flush_def)

lemma http_calls_status: "rs_status w = Some c \<Longrightarrow> rs_status (fold http_call calls w) = Some c"
  by (induction calls arbitrary: w) (simp_all add: http_call_status)

lemma logged_calls_rw:
  "lc_rw (fold chi_call calls l) = fold http_call (logged_calls (lc_wroteHeader l) calls) (lc_rw l)"
  by (induction "lc_wroteHeader l" calls arbitrary: l rule: logged_calls.induct)
    (simp_all add: chi_WriteHeader_def chi_Write_def chi_Flush_def chi_ReadFrom_def Let_def)

lemma list_router_contract: "router_contract list_router"
  by (auto simp: router_contract_def list_router_def split: prod.splits)

section \<open>Properties\<close>

text \<open>
  The logging middleware of chi in the two forms: for every handler, whatever calls it makes, the chain
  form sends the client exactly what the middleware with its response writer sends.
\<close>

theorem logging_chi_refines:
  "serve (logging_chi corrID h) r w =
     (fst (LoggingChiMiddleware corrID h r w), snd (snd (LoggingChiMiddleware corrID h r w)))"
  using logged_calls_rw [of _ "newLoggingChiResponseWriter (Header_Set ''X-Correlation-ID'' corrID w)"]
  by (auto simp: serve_def logging_chi_def LoggingChiMiddleware_def Let_def newLoggingChiResponseWriter_def
      split: prod.splits)



text \<open>
  An informational status hides the final one: after \<^verbatim>\<open>WriteHeader\<close> with a code like 103 the logging
  writer drops every later status code, so a handler that then answers 404 with a body sends 200.
\<close>

theorem chi_informational_hides_status:
  assumes "informational early" and "\<not> informational code" and "rs_status w = None"
  shows "rs_status (fold http_call [CWriteHeader early, CWriteHeader code, CWrite b] w) = Some code \<and>
    rs_status (lc_rw (fold chi_call [CWriteHeader early, CWriteHeader code, CWrite b] (newLoggingChiResponseWriter w))) =
      Some StatusOK"
  using assms
  by (simp add: chi_WriteHeader_def chi_Write_def http_WriteHeader_def http_Write_def newLoggingChiResponseWriter_def)
    (simp add: informational_def StatusOK_def)

theorem chi_informational_hides_status_witness:
  "rs_status (lc_rw (fold chi_call [CWriteHeader 103, CWriteHeader 404, CWrite []]
     (newLoggingChiResponseWriter new_response))) = Some 200"
  using chi_informational_hides_status [of 103 404 new_response "[]"]
  by (simp add: informational_def new_response_def StatusOK_def)

text \<open>
  With \<^verbatim>\<open>RecoverChiMiddleware\<close> no panic leaves the handler, and the client sees status 500 exactly when
  the handler had sent no status before it panicked; otherwise the status already sent stays.
\<close>

theorem RecoverChiMiddleware_spec:
  assumes "h r = (calls, Some p)"
  shows "snd (serve (RecoverChiMiddleware h) r w) = None \<and>
    rs_status (fst (serve (RecoverChiMiddleware h) r w)) =
      (case rs_status (fold http_call calls w) of None \<Rightarrow> Some 500 | Some c \<Rightarrow> Some c)"
  using assms
  by (auto simp: serve_def RecoverChiMiddleware_def http_WriteHeader_def informational_def
      StatusInternalServerError_def split: option.splits)

theorem RecoverChiMiddleware_spec_witness:
  "rs_status (fst (serve (RecoverChiMiddleware (\<lambda>_. ([], Some ''boom''))) Background new_response)) = Some 500"
  using RecoverChiMiddleware_spec [of "\<lambda>_. ([], Some ''boom'')" Background "[]" "''boom''" new_response]
  by (simp add: new_response_def)

text \<open>
  While the server drains, and only then, \<^verbatim>\<open>DrainMiddleware\<close> keeps requests from the handler: without a
  callback they get status 503 and the shutdown time as \<^verbatim>\<open>Retry-After\<close>.
\<close>

theorem DrainMiddleware_spec:
  "if ps_Need s \<and> ps_State s = stateDraining
   then rs_status (fst (serve (DrainMiddleware (Some s) None h) r new_response)) = Some 503 \<and>
     rs_header (fst (serve (DrainMiddleware (Some s) None h) r new_response)) ''Retry-After'' =
       Some [int_string (round_seconds (ps_TimeForShutdown s))]
   else serve (DrainMiddleware (Some s) callback h) r w = serve h r w"
  by (simp add: serve_def DrainMiddleware_def new_response_def http_WriteHeader_def Header_Set_def
      informational_def StatusServiceUnavailable_def)

text \<open>
  The time for draining is taken from the time for shutting down: the timeout starts before the
  draining, so at the call of \<^verbatim>\<open>srv.Shutdown\<close> only the difference is left, and with a draining time not
  below the shutdown time its context is already done and no running request is waited for.
\<close>

theorem chi_shutdown_grace:
  assumes "chi_shutdown i t took (Some p) = (c, called, states)" and "ps_Need p" and "0 \<le> ps_TimeForDraining p"
  shows "ctx_deadline c = Some (called + (ps_TimeForShutdown p - ps_TimeForDraining p)) \<and>
    (ps_TimeForShutdown p \<le> ps_TimeForDraining p \<longrightarrow>
       ctx_done \<lparr>env_cancelled = {}, env_now = called\<rparr> c) \<and>
    map snd states = [stateDraining, stateShutdown]"
  using assms by (auto simp: chi_shutdown_def Let_def)

theorem chi_shutdown_grace_witness:
  "ctx_done \<lparr>env_cancelled = {}, env_now = 10 * Second\<rparr>
     (fst (chi_shutdown 0 0 0 (Some (NewPreShutdownState True (10 * Second) (5 * Second)))))"
proof -
  let ?p = "NewPreShutdownState True (10 * Second) (5 * Second)"
  obtain c called st where x: "chi_shutdown 0 0 0 (Some ?p) = (c, called, st)" using prod_cases3 by blast
  have "ps_Need ?p" "0 \<le> ps_TimeForDraining ?p" "called = 10 * Second"
    using x by (auto simp: NewPreShutdownState_def chi_shutdown_def Let_def Second_def)
  with chi_shutdown_grace [OF x this(1,2)] x show ?thesis by (auto simp: NewPreShutdownState_def Second_def)
qed

text \<open>
  Life of a chi server created with a fresh state that is wanted: \<^verbatim>\<open>CreateHTTPChiServer\<close> leaves it running, and
  its shutdown moves the state upwards only, at instants that do not decrease. Every request that
  arrives from the first of them to the last is turned away by \<^verbatim>\<open>DrainMiddleware\<close>.
\<close>

theorem chi_lifecycle:
  assumes run: "CreateHTTPChiServer lib routes port (Some (NewPreShutdownState True drain timeout)) mwf = (s, srv)"
    and p: "ch_preShutdownState s = Some p"
    and down: "chi_shutdown i t took (Some p) = (c, called, states)" and "0 \<le> took"
  shows "sorted_wrt (<) (stateInitial # ps_State p # map snd states) \<and> sorted (map fst states) \<and>
    (\<forall>calls. DrainMiddleware (Some (p\<lparr>ps_State := snd (hd states)\<rparr>)) (Some calls) h r = (calls, None)) \<and>
    DrainMiddleware (Some p) cb h r = h r"
  using assms
  by (auto simp: CreateHTTPChiServer_def chi_apply_def chi_run_def NewPreShutdownState_def chi_shutdown_def Let_def
      less_serverState_def DrainMiddleware_def)

text \<open>
  The logging writer of gorilla does not change what the client gets from a handler that does not
  flush, but it logs the last status code the handler gave while the client saw the first.
\<close>

theorem gorilla_logs_last_status:
  assumes "\<not> informational first_code" and "\<not> informational last_code" and "rs_status w = None"
    and "h (WithValue correlationIDCtxKey corrID r) = ([CWriteHeader first_code, CWriteHeader last_code], None)"
  shows "\<exists>w'. LoggingMiddleware corrID h r w = (w', last_code, None) \<and> sent_status w' = first_code"
  using assms
  by (simp add: LoggingMiddleware_def Let_def gorilla_WriteHeader_def http_WriteHeader_def sent_status_def
      newLoggingResponseWriter_def Header_Add_def)

theorem gorilla_logs_last_status_witness:
  "\<exists>w'. LoggingMiddleware ''id'' (\<lambda>_. ([CWriteHeader 200, CWriteHeader 500], None)) Background new_response =
     (w', 500, None) \<and> sent_status w' = 200"
  using gorilla_logs_last_status [of 200 500 new_response "\<lambda>_. ([CWriteHeader 200, CWriteHeader 500], None)" "''id''" Background]
  by (simp add: informational_def new_response_def)

end
