(* ===== verification/Http_Drain.thy ===== *)
theory Http_Drain
  imports Http_Server
begin

text \<open>
  A chi server that is shut down while requests arrive: the function \<^verbatim>\<open>shutdown\<close> returns interleaved with the
  requests behind \<^verbatim>\<open>DrainMiddleware\<close>. Of \<^verbatim>\<open>net/http\<close> the model uses what is documented of \<^verbatim>\<open>Server.Shutdown\<close>:
  once it is called no new request is accepted, and it returns when no request is running or when its
  context is done.
\<close>

section \<open>State and steps\<close>

text \<open>
  The phases of \<^verbatim>\<open>shutdown\<close>: not called; in the draining pause that ends at the given instant; inside
  \<^verbatim>\<open>srv.Shutdown\<close>; returned.
\<close>

datatype drain_phase = Serving | Pausing ctx instant | InShutdown ctx | Returned

text \<open>
  \<open>dr_running\<close> are the arrival times of the requests inside handlers; \<open>dr_answers\<close> what the middleware made
  of each request, with its arrival time; \<open>dr_began\<close> the instant at which \<^verbatim>\<open>shutdown\<close> was called.
\<close>

record drain =
  dr_pss :: PreShutdownState
  dr_now :: instant
  dr_phase :: drain_phase
  dr_running :: "instant list"
  dr_answers :: "(instant \<times> rw_call list \<times> string option) list"
  dr_began :: "instant option"

definition drains :: "PreShutdownState \<Rightarrow> bool" where
  "drains p \<longleftrightarrow> ps_Need p \<and> ps_State p = stateDraining"

text \<open>A request \<open>r\<close> for the handler \<open>h\<close>: a handler that is entered runs on.\<close>

definition arrive :: "rw_call list option \<Rightarrow> handler \<Rightarrow> ctx \<Rightarrow> drain \<Rightarrow> drain" where
  "arrive callback h r d =
     d\<lparr>dr_answers := dr_answers d @ [(dr_now d, DrainMiddleware (Some (dr_pss d)) callback h r)],
       dr_running := (if drains (dr_pss d) then dr_running d else dr_now d # dr_running d)\<rparr>"

text \<open>\<^verbatim>\<open>shutdown\<close> up to the pause, and its end.\<close>

definition begin_shutdown :: "nat \<Rightarrow> drain \<Rightarrow> drain" where
  "begin_shutdown i d =
     (case chi_shutdown i (dr_now d) 0 (Some (dr_pss d)) of
        (c, called, states) \<Rightarrow>
          d\<lparr>dr_phase := Pausing c called, dr_began := Some (dr_now d),
            dr_pss := (if ps_Need (dr_pss d) then (dr_pss d)\<lparr>ps_State := stateDraining\<rparr> else dr_pss d)\<rparr>)"

definition end_shutdown :: "drain \<Rightarrow> drain" where
  "end_shutdown d =
     d\<lparr>dr_phase := Returned,
       dr_pss := (if ps_Need (dr_pss d) then (dr_pss d)\<lparr>ps_State := stateShutdown\<rparr> else dr_pss d)\<rparr>"

text \<open>
  \<open>limit\<close> is the longest time a handler takes: time does not pass beyond the end of a running request.
  The context of \<^verbatim>\<open>srv.Shutdown\<close> is ended by its deadline only. \<open>callback\<close> is the answer the middleware was
  given for a draining server.
\<close>

inductive drain_step :: "rw_call list option \<Rightarrow> duration \<Rightarrow> drain \<Rightarrow> drain \<Rightarrow> bool"
  for callback :: "rw_call list option" and limit :: duration where
  ds_arrive: "(case dr_phase d of Serving \<Rightarrow> True | Pausing _ _ \<Rightarrow> True | _ \<Rightarrow> False) \<Longrightarrow>
    drain_step callback limit d (arrive callback h r d)"
| ds_finish: "a \<in> set (dr_running d) \<Longrightarrow> drain_step callback limit d (d\<lparr>dr_running := remove1 a (dr_running d)\<rparr>)"
| ds_begin: "dr_phase d = Serving \<Longrightarrow> drain_step callback limit d (begin_shutdown i d)"
| ds_call: "dr_phase d = Pausing c called \<Longrightarrow> called \<le> dr_now d \<Longrightarrow>
    drain_step callback limit d (d\<lparr>dr_phase := InShutdown c\<rparr>)"
| ds_return: "dr_phase d = InShutdown c \<Longrightarrow>
    dr_running d = [] \<or> ctx_done \<lparr>env_cancelled = {}, env_now = dr_now d\<rparr> c \<Longrightarrow>
    drain_step callback limit d (end_shutdown d)"
| ds_time: "dr_now d \<le> t \<Longrightarrow> (\<And>a. a \<in> set (dr_running d) \<Longrightarrow> t \<le> a + limit) \<Longrightarrow>
    drain_step callback limit d (d\<lparr>dr_now := t\<rparr>)"

text \<open>A server that \<^verbatim>\<open>run\<close> has just started, and its state is wanted.\<close>

definition drain_init :: "PreShutdownState \<Rightarrow> drain \<Rightarrow> bool" where
  "drain_init p d \<longleftrightarrow> ps_Need p \<and> dr_pss d = p\<lparr>ps_State := stateRunning\<rparr> \<and> dr_phase d = Serving \<and>
     dr_running d = [] \<and> dr_answers d = [] \<and> dr_began d = None"

section \<open>Invariant\<close>

text \<open>The answer comes from the middleware itself, whatever the handler.\<close>

definition turned_away :: "rw_call list option \<Rightarrow> PreShutdownState \<Rightarrow> rw_call list \<times> string option \<Rightarrow> bool" where
  "turned_away callback p ans \<longleftrightarrow>
     ans = (case callback of
              Some calls \<Rightarrow> (calls, None)
            | None \<Rightarrow> ([CHeader ''Retry-After'' (int_string (round_seconds (ps_TimeForShutdown p))),
                        CWriteHeader StatusServiceUnavailable], None))"

definition drain_inv :: "rw_call list option \<Rightarrow> PreShutdownState \<Rightarrow> duration \<Rightarrow> drain \<Rightarrow> bool" where
  "drain_inv callback p limit d \<longleftrightarrow> ps_Need p \<and>
     dr_pss d = p\<lparr>ps_State := (case dr_phase d of Serving \<Rightarrow> stateRunning | Returned \<Rightarrow> stateShutdown | _ \<Rightarrow> stateDraining)\<rparr> \<and>
     (dr_began d = None \<longleftrightarrow> dr_phase d = Serving) \<and>
     (\<forall>a \<in> set (dr_running d). a \<le> dr_now d \<and> (0 \<le> limit \<longrightarrow> dr_now d \<le> a + limit)) \<and>
     (\<forall>t. dr_began d = Some t \<longrightarrow> t \<le> dr_now d \<and> (\<forall>a \<in> set (dr_running d). a \<le> t) \<and>
        (\<forall>c. (\<exists>u. dr_phase d = Pausing c u) \<or> dr_phase d = InShutdown c \<longrightarrow> (\<exists>i. c = WithTimeout i (t + ps_TimeForShutdown p) Background)) \<and>
        (\<forall>(a, ans) \<in> set (dr_answers d). t < a \<longrightarrow> turned_away callback p ans)) \<and>
     (\<forall>(a, ans) \<in> set (dr_answers d). a \<le> dr_now d) \<and>
     (dr_phase d = Returned \<and> 0 \<le> limit \<and> limit < ps_TimeForShutdown p \<longrightarrow> dr_running d = [])"

section \<open>Preservation\<close>

lemma DrainMiddleware_drains: "drains p \<Longrightarrow> turned_away callback p (DrainMiddleware (Some p) callback h r)"
  by (simp add: turned_away_def DrainMiddleware_def drains_def split: option.splits)

lemma turned_away_state [simp]: "turned_away callback (p\<lparr>ps_State := s\<rparr>) ans = turned_away callback p ans"
  by (simp add: turned_away_def split: option.splits)

lemma drain_inv_arrive:
  assumes "drain_inv callback p limit d" and "case dr_phase d of Serving \<Rightarrow> True | Pausing _ _ \<Rightarrow> True | _ \<Rightarrow> False"
  shows "drain_inv callback p limit (arrive callback h r d)"
proof (cases "dr_phase d")
  case Serving
  then have "\<not> drains (dr_pss d)" "dr_began d = None" using assms(1) by (auto simp: drain_inv_def drains_def)
  with assms(1) Serving show ?thesis by (auto simp: drain_inv_def arrive_def)
next
  case (Pausing c u)
  then have "drains (dr_pss d)" and pss: "dr_pss d = p\<lparr>ps_State := stateDraining\<rparr>"
    using assms(1) by (auto simp: drain_inv_def drains_def)
  with DrainMiddleware_drains [OF this(1), of callback h r] have "turned_away callback p (DrainMiddleware (Some (dr_pss d)) callback h r)"
    by simp
  with assms(1) Pausing \<open>drains (dr_pss d)\<close> show ?thesis
    unfolding drain_inv_def arrive_def by auto
qed (use assms(2) in simp_all)

lemma drain_inv_begin:
  assumes "drain_inv callback p limit d" and "dr_phase d = Serving"
  shows "drain_inv callback p limit (begin_shutdown i d)"
  using assms by (auto simp: drain_inv_def begin_shutdown_def chi_shutdown_def Let_def)

lemma drain_inv_end:
  assumes "drain_inv callback p limit d" and "dr_phase d = InShutdown c"
    and "dr_running d = [] \<or> ctx_done \<lparr>env_cancelled = {}, env_now = dr_now d\<rparr> c"
  shows "drain_inv callback p limit (end_shutdown d)"
proof -
  obtain t i where t: "dr_began d = Some t" and c: "c = WithTimeout i (t + ps_TimeForShutdown p) Background"
    using assms(1,2) by (auto simp: drain_inv_def)
  have "dr_running d = []" if "0 \<le> limit" "limit < ps_TimeForShutdown p"
  proof (rule ccontr)
    assume "dr_running d \<noteq> []"
    then obtain a where a: "a \<in> set (dr_running d)" by (cases "dr_running d") auto
    with assms(1) t that(1) have "a \<le> t" "dr_now d \<le> a + limit" by (auto simp: drain_inv_def)
    moreover have "t + ps_TimeForShutdown p \<le> dr_now d" using assms(3) c \<open>dr_running d \<noteq> []\<close> by simp
    ultimately show False using that(2) by linarith
  qed
  with assms(1,2) t show ?thesis by (auto simp: drain_inv_def end_shutdown_def)
qed

interpretation draining: inductive_invariant "drain_init p" "drain_step callback limit" "drain_inv callback p limit"
  for p :: PreShutdownState and callback :: "rw_call list option" and limit :: duration
proof
  show "drain_init p d \<Longrightarrow> drain_inv callback p limit d" for d by (auto simp: drain_init_def drain_inv_def)
  fix d d'
  assume inv: "drain_inv callback p limit d" and "drain_step callback limit d d'"
  from this(2) show "drain_inv callback p limit d'"
  proof (cases rule: drain_step.cases)
    case (ds_finish a)
    with inv show ?thesis by (auto simp: drain_inv_def dest!: set_remove1_subset [THEN subsetD])
  next
    case (ds_call c called)
    with inv show ?thesis by (auto simp: drain_inv_def)
  next
    case (ds_time t)
    have "\<forall>a \<in> set (dr_running d). a \<le> dr_now d" "\<forall>u. dr_began d = Some u \<longrightarrow> u \<le> dr_now d"
      "\<forall>(a, ans) \<in> set (dr_answers d). a \<le> dr_now d" using inv by (simp_all add: drain_inv_def)
    then have "\<forall>a \<in> set (dr_running d). a \<le> t" "\<forall>u. dr_began d = Some u \<longrightarrow> u \<le> t"
      "\<forall>(a, ans) \<in> set (dr_answers d). a \<le> t" using ds_time(2) by fastforce+
    with inv ds_time(1,3) show ?thesis by (simp add: drain_inv_def)
  qed (use inv in \<open>auto intro: drain_inv_arrive drain_inv_begin drain_inv_end\<close>)
qed

section \<open>Properties\<close>

text \<open>
  C21. Graceful shutdown: when handlers take less than the shutdown time, then in every interleaving of
  requests and \<^verbatim>\<open>shutdown\<close>, once \<^verbatim>\<open>shutdown\<close> has returned no handler is running, so none was cut off, and every
  request that arrived after the shutdown began was turned away without entering its handler. The pause
  for draining does not matter for this, however long it is.
\<close>

theorem graceful_shutdown:
  assumes "reachable (drain_init p) (drain_step callback limit) d" and "0 \<le> limit" and "limit < ps_TimeForShutdown p"
    and "dr_phase d = Returned"
  shows "dr_running d = [] \<and> ps_State (dr_pss d) = stateShutdown \<and>
    (\<exists>t. dr_began d = Some t \<and> (\<forall>(a, ans) \<in> set (dr_answers d). t < a \<longrightarrow> turned_away callback p ans))"
proof -
  note inv = draining.invariant [OF assms(1)]
  then obtain t where "dr_began d = Some t" using assms(4) by (auto simp: drain_inv_def)
  with inv assms(2-4) show ?thesis by (simp add: drain_inv_def)
qed

text \<open>
  The bound is needed: a handler that takes as long as the shutdown time or longer can still be running
  when \<^verbatim>\<open>shutdown\<close> returns.
\<close>

theorem long_handler_cut_off:
  assumes "ps_Need p" and "0 \<le> ps_TimeForShutdown p" and "0 \<le> ps_TimeForDraining p"
    and "max (ps_TimeForDraining p) (ps_TimeForShutdown p) \<le> limit"
  shows "\<exists>d. reachable (drain_init p) (drain_step callback limit) d \<and> dr_phase d = Returned \<and> dr_running d \<noteq> []"
proof -
  let ?R = "reachable (drain_init p) (drain_step callback limit)"
  let ?stop = "max (ps_TimeForDraining p) (ps_TimeForShutdown p)"
  let ?d0 = "\<lparr>dr_pss = p\<lparr>ps_State := stateRunning\<rparr>, dr_now = 0, dr_phase = Serving, dr_running = [], dr_answers = [], dr_began = None\<rparr>"
  let ?d1 = "arrive callback (\<lambda>_. ([], None)) Background ?d0"
  let ?d2 = "begin_shutdown 0 ?d1"
  let ?c = "WithTimeout 0 (ps_TimeForShutdown p) Background"
  let ?d3 = "?d2\<lparr>dr_now := ?stop\<rparr>"
  have r1: "dr_running ?d1 = [0]" "dr_phase ?d1 = Serving" "dr_pss ?d1 = dr_pss ?d0" "dr_now ?d1 = 0"
    by (simp_all add: arrive_def drains_def)
  have r2: "dr_running ?d2 = [0]" "dr_phase ?d2 = Pausing ?c (ps_TimeForDraining p)" "dr_now ?d2 = 0"
    using assms(1,3) r1 by (simp_all add: begin_shutdown_def chi_shutdown_def Let_def)
  have dl: "ctx_done \<lparr>env_cancelled = {}, env_now = ?stop\<rparr> ?c" by auto
  have "?R ?d0" by (rule reach_init) (simp add: drain_init_def assms(1))
  then have "?R ?d1" by (rule reach_step) (rule ds_arrive, simp)
  then have "?R ?d2" by (rule reach_step) (rule ds_begin, simp add: r1)
  then have "?R ?d3" by (rule reach_step) (rule ds_time, use assms r2 in auto)
  moreover have "drain_step callback limit ?d3 (?d3\<lparr>dr_phase := InShutdown ?c\<rparr>)"
    by (rule ds_call [of _ _ "ps_TimeForDraining p"]) (simp_all add: r2(2) max.cobounded1)
  ultimately have "?R (?d3\<lparr>dr_phase := InShutdown ?c\<rparr>)" by (rule reach_step)
  moreover have "drain_step callback limit (?d3\<lparr>dr_phase := InShutdown ?c\<rparr>) (end_shutdown (?d3\<lparr>dr_phase := InShutdown ?c\<rparr>))"
    by (rule ds_return [of _ ?c]) (use dl in simp_all)
  ultimately have "?R (end_shutdown (?d3\<lparr>dr_phase := InShutdown ?c\<rparr>))" by (rule reach_step)
  moreover have "dr_phase (end_shutdown (?d3\<lparr>dr_phase := InShutdown ?c\<rparr>)) = Returned"
    "dr_running (end_shutdown (?d3\<lparr>dr_phase := InShutdown ?c\<rparr>)) \<noteq> []"
    using r2(1) by (simp_all add: end_shutdown_def)
  ultimately show ?thesis by blast
qed

text \<open>One request is accepted, a second one arrives a second after the shutdown has begun, the first is finished.\<close>

theorem graceful_shutdown_witness:
  "\<exists>d. reachable (drain_init (NewPreShutdownState True 0 (5 * Second))) (drain_step None (2 * Second)) d \<and>
     dr_phase d = Returned \<and> dr_running d = [] \<and> length (dr_answers d) = 2 \<and>
     turned_away None (NewPreShutdownState True 0 (5 * Second)) (snd (last (dr_answers d)))"
proof -
  let ?p = "NewPreShutdownState True 0 (5 * Second)" and ?h = "\<lambda>_. ([], None)" and ?c = "WithTimeout 0 (5 * Second) Background"
  let ?R = "reachable (drain_init ?p) (drain_step None (2 * Second))"
  let ?d0 = "\<lparr>dr_pss = ?p\<lparr>ps_State := stateRunning\<rparr>, dr_now = 0, dr_phase = Serving, dr_running = [], dr_answers = [], dr_began = None\<rparr>"
  let ?d2 = "begin_shutdown 0 (arrive None ?h Background ?d0)"
  let ?d3 = "?d2\<lparr>dr_now := Second\<rparr>"
  let ?d4 = "arrive None ?h Background ?d3"
  let ?d5 = "?d4\<lparr>dr_running := remove1 0 (dr_running ?d4)\<rparr>"
  let ?d6 = "?d5\<lparr>dr_phase := InShutdown ?c\<rparr>"
  note defs = arrive_def begin_shutdown_def chi_shutdown_def NewPreShutdownState_def drains_def Second_def
  have "?R ?d0" by (rule reach_init) (simp add: drain_init_def NewPreShutdownState_def)
  then have "?R (arrive None ?h Background ?d0)" by (rule reach_step) (rule ds_arrive, simp)
  then have "?R ?d2" by (rule reach_step) (rule ds_begin, simp add: arrive_def)
  then have "?R ?d3" by (rule reach_step) (rule ds_time, simp_all add: defs)
  then have "?R ?d4" by (rule reach_step) (rule ds_arrive, simp add: defs)
  then have "?R ?d5" by (rule reach_step) (rule ds_finish, simp add: defs)
  then have "?R ?d6" by (rule reach_step) (rule ds_call [of _ _ 0], simp_all add: defs)
  then have r: "?R (end_shutdown ?d6)" by (rule reach_step) (rule ds_return, simp_all add: defs)
  have d: "dr_phase (end_shutdown ?d6) = Returned" "0 \<le> 2 * Second" "2 * Second < ps_TimeForShutdown ?p"
    "dr_began (end_shutdown ?d6) = Some 0" "map fst (dr_answers (end_shutdown ?d6)) = [0, Second]" "0 < Second"
    by (simp_all add: end_shutdown_def defs)
  then obtain a b where ab: "dr_answers (end_shutdown ?d6) = [(0, a), (Second, b)]" by auto
  from graceful_shutdown [OF r d(2,3,1)] d(4,6) ab have "turned_away None ?p b" "dr_running (end_shutdown ?d6) = []" by auto
  with r d(1) ab show ?thesis by (intro exI [of _ "end_shutdown ?d6"]) simp
qed

theorem long_handler_cut_off_witness:
  "\<exists>d. reachable (drain_init (NewPreShutdownState True 0 (5 * Second))) (drain_step None (7 * Second)) d \<and>
     dr_phase d = Returned \<and> dr_running d \<noteq> []"
  by (rule long_handler_cut_off) (simp_all add: NewPreShutdownState_def Second_def)

end
