(* ===== verification/Grpc_Server.thy ===== *)
theory Grpc_Server
  imports Http_Server
begin

text \<open>
  The gRPC server (\<^verbatim>\<open>server/grpc.go\<close>) and the HTTP gateway in front of it (\<^verbatim>\<open>server/grpc_gateway.go\<close>).

  The libraries are parameters: the size \<^verbatim>\<open>proto.Size\<close> gives to a message, the results of listening and
  registering, the default header matcher and the table from status codes to HTTP codes. The patterns of
  \<^verbatim>\<open>http.ServeMux\<close> are modelled for literal paths (no wildcards, blanks or escapes), where registering a
  pattern panics exactly when it is empty or registered already.
\<close>

section \<open>grpc.go\<close>

record GrpcConfigs =
  gc_Port :: string
  gc_Network :: string
  gc_Reflection :: bool

text \<open>\<open>gr_server\<close> holds the names registered with the server, \<open>None\<close> before \<^verbatim>\<open>Start\<close> has made one.\<close>

record GRPCServer =
  gr_configs :: GrpcConfigs
  gr_server :: "string list option"
  gr_serving :: bool

definition newGRPCServer :: "GrpcConfigs \<Rightarrow> GRPCServer" where
  "newGRPCServer configs = \<lparr>gr_configs = configs, gr_server = None, gr_serving = False\<rparr>"

text \<open>
  \<^verbatim>\<open>Start\<close>: after a failed \<^verbatim>\<open>net.Listen\<close> the goroutine serves on a nil listener and ends with a recovered
  panic; \<open>serve_err\<close> tells whether \<^verbatim>\<open>Serve\<close> returns with an error, which panics as well.
\<close>

definition grpc_Start :: "go_error option \<Rightarrow> bool \<Rightarrow> bool \<Rightarrow> string list \<Rightarrow> GRPCServer \<Rightarrow> GRPCServer" where
  "grpc_Start listen_err done_at_start serve_err services s =
     (let s = s\<lparr>gr_server := Some services\<rparr>;
          s = (if gc_Reflection (gr_configs s) then s\<lparr>gr_server := Some (services @ [''reflection''])\<rparr> else s)
      in fst (GoRecover done_at_start
           (\<lambda>s. if listen_err \<noteq> None then (s, Some ''invalid memory address or nil pointer dereference'')
                else if serve_err then (s, Some ''Server gRPC stopped by error'')
                else (s\<lparr>gr_serving := True\<rparr>, None)) s))"

definition CreateGRPCServer :: "go_error option \<Rightarrow> bool \<Rightarrow> bool \<Rightarrow> string list \<Rightarrow> GrpcConfigs \<Rightarrow> GRPCServer" where
  "CreateGRPCServer listen_err done_at_start serve_err registerServices configs =
     grpc_Start listen_err done_at_start serve_err registerServices (newGRPCServer configs)"

text \<open>
  \<^verbatim>\<open>shutdown\<close>: \<open>graceful\<close> is the time \<^verbatim>\<open>GracefulStop\<close> takes, \<open>None\<close> when it does not return or panics. The
  result tells how the server stopped and after which time.
\<close>

datatype grpc_end = StoppedGracefully | StopForced

inductive grpc_shutdown :: "duration option \<Rightarrow> grpc_end \<Rightarrow> duration \<Rightarrow> bool" where
  gs_done: "d \<le> 5 * Second \<Longrightarrow> grpc_shutdown (Some d) StoppedGracefully d"
| gs_timeout: "5 * Second \<le> d \<Longrightarrow> grpc_shutdown (Some d) StopForced (5 * Second)"
| gs_stuck: "grpc_shutdown None StopForced (5 * Second)"

inductive_simps grpc_shutdown_iff: "grpc_shutdown g e d"

datatype grpc_error = HandlerError go_error | StatusError string string

definition PanicHandler :: "string option \<Rightarrow> string \<Rightarrow> grpc_error call" where
  "PanicHandler ts p =
     (case ts of
        None \<Rightarrow> Panic ''invalid memory address or nil pointer dereference''
      | Some fullMethod \<Rightarrow> Return (StatusError ''Internal'' (''internal server error ('' @ fullMethod @ '')'')))"

datatype 'm grpc_resp = NilResp | ProtoMessage 'm | OtherResp

definition EnforceMaxSendSize ::
    "('m \<Rightarrow> int) \<Rightarrow> int \<Rightarrow> 'm grpc_resp \<times> grpc_error option \<Rightarrow> 'm grpc_resp \<times> grpc_error option" where
  "EnforceMaxSendSize proto_Size max_size result =
     (case result of (resp, err) \<Rightarrow>
        if err \<noteq> None \<or> resp = NilResp then (resp, err)
        else (case resp of
                ProtoMessage m \<Rightarrow>
                  if proto_Size m > max_size then
                    (NilResp, Some (StatusError ''ResourceExhausted''
                       (''response too large: '' @ int_string (proto_Size m) @ '' > '' @ int_string max_size @
                        ''; use paging/streaming'')))
                  else (resp, None)
              | _ \<Rightarrow> (resp, None)))"

definition TimeoutUnaryInterceptor ::
    "nat \<Rightarrow> instant \<Rightarrow> duration \<Rightarrow> (ctx \<Rightarrow> 'q \<Rightarrow> 'r) \<Rightarrow> ctx \<Rightarrow> 'q \<Rightarrow> 'r" where
  "TimeoutUnaryInterceptor i t timeout handler c req = handler (WithTimeout i (t + timeout) c) req"

text \<open>\<^verbatim>\<open>ZeroPool\<close>: every buffer is fresh.\<close>

definition ZeroPool_Get :: "nat \<Rightarrow> bytes" where
  "ZeroPool_Get n = replicate n 0"

section \<open>grpc\_gateway.go: configuration\<close>

record SwaggerAPIConfig =
  sw_Name :: string
  sw_UIPath :: string
  sw_JSONPath :: string
  sw_JSONFile :: string

record SwaggerConfig =
  sw_Enabled :: bool
  sw_APIs :: "SwaggerAPIConfig list"

record GRPCGatewayConfigs =
  gw_HTTPAddr :: string
  gw_GRPCEndpoint :: string
  gw_Network :: string
  gw_ReadHeaderTimeout :: duration
  gw_ReadTimeout :: duration
  gw_WriteTimeout :: duration
  gw_IdleTimeout :: duration
  gw_ShutdownTimeout :: duration
  gw_MaxHeaderBytes :: int
  gw_Swagger :: SwaggerConfig

definition NewGRPCGatewayServer :: "GRPCGatewayConfigs \<Rightarrow> go_error + GRPCGatewayConfigs" where
  "NewGRPCGatewayServer configs =
     (if gw_HTTPAddr configs = '''' then Inl (ErrorString ''grpcs gateway HTTP address is required'')
      else if gw_GRPCEndpoint configs = '''' then Inl (ErrorString ''grpcs gateway upstream endpoint is required'')
      else
        let c = configs;
            c = (if gw_Network c = '''' then c\<lparr>gw_Network := ''tcp''\<rparr> else c);
            c = (if gw_ReadHeaderTimeout c \<le> 0 then c\<lparr>gw_ReadHeaderTimeout := 5 * Second\<rparr> else c);
            c = (if gw_IdleTimeout c \<le> 0 then c\<lparr>gw_IdleTimeout := 60 * Second\<rparr> else c);
            c = (if gw_ShutdownTimeout c \<le> 0 then c\<lparr>gw_ShutdownTimeout := 5 * Second\<rparr> else c);
            c = (if gw_MaxHeaderBytes c \<le> 0 then c\<lparr>gw_MaxHeaderBytes := push_bit 20 1\<rparr> else c)
        in Inr c)"

definition HasPrefix :: "string \<Rightarrow> string \<Rightarrow> bool" where
  "HasPrefix s p \<longleftrightarrow> take (length p) s = p"

definition HasSuffix :: "string \<Rightarrow> string \<Rightarrow> bool" where
  "HasSuffix s p \<longleftrightarrow> length p \<le> length s \<and> drop (length s - length p) s = p"

definition validateSwaggerAPIConfig :: "SwaggerAPIConfig \<Rightarrow> go_error option" where
  "validateSwaggerAPIConfig config =
     (let n = go_quote (sw_Name config); ui = sw_UIPath config; json = sw_JSONPath config in
      if sw_Name config = '''' then Some (ErrorString ''swagger API name is required'')
      else if ui = '''' then Some (ErrorString (''swagger UI path is required for API '' @ n))
      else if json = '''' then Some (ErrorString (''swagger JSON path is required for API '' @ n))
      else if sw_JSONFile config = '''' then Some (ErrorString (''swagger JSON file is required for API '' @ n))
      else if \<not> HasPrefix ui ''/'' then Some (ErrorString (''swagger UI path for API '' @ n @ '' must start with /''))
      else if \<not> HasSuffix ui ''/'' then Some (ErrorString (''swagger UI path for API '' @ n @ '' must end with /''))
      else if \<not> HasPrefix json ''/'' then Some (ErrorString (''swagger JSON path for API '' @ n @ '' must start with /''))
      else if HasSuffix json ''/'' then Some (ErrorString (''swagger JSON path for API '' @ n @ '' must not end with /''))
      else if ui = json then Some (ErrorString (''swagger UI path and JSON path for API '' @ n @ '' must be different''))
      else None)"

fun validate_apis :: "nat \<Rightarrow> (string \<rightharpoonup> string) \<Rightarrow> SwaggerAPIConfig list \<Rightarrow> go_error option" where
  "validate_apis index registeredPaths [] = None"
| "validate_apis index registeredPaths (api # apis) =
     (case validateSwaggerAPIConfig api of
        Some err \<Rightarrow> Some (wrapf (''validate Swagger API at index '' @ decimal index) err)
      | None \<Rightarrow>
          (case registeredPaths (sw_UIPath api) of
             Some owner \<Rightarrow> Some (ErrorString (''swagger UI path '' @ go_quote (sw_UIPath api) @ '' for API '' @
               go_quote (sw_Name api) @ '' is already used by API '' @ go_quote owner))
           | None \<Rightarrow>
               (let registeredPaths = registeredPaths(sw_UIPath api \<mapsto> sw_Name api) in
                case registeredPaths (sw_JSONPath api) of
                  Some owner \<Rightarrow> Some (ErrorString (''swagger JSON path '' @ go_quote (sw_JSONPath api) @ '' for API '' @
                    go_quote (sw_Name api) @ '' is already used by API '' @ go_quote owner))
                | None \<Rightarrow>
                    validate_apis (index + 1) (registeredPaths(sw_JSONPath api \<mapsto> sw_Name api)) apis)))"

definition validateSwaggerConfig :: "SwaggerConfig \<Rightarrow> go_error option" where
  "validateSwaggerConfig config = validate_apis 0 Map.empty (sw_APIs config)"

section \<open>grpc\_gateway.go: handlers\<close>

datatype route = SwaggerJSON string | SwaggerUI string | ToGateway

type_synonym mux = "(string \<times> route) list"

datatype gw_handler = GatewayMux | RootMux mux

definition mux_Handle :: "string \<Rightarrow> route \<Rightarrow> mux \<Rightarrow> mux call" where
  "mux_Handle p h m =
     (if p = '''' then Panic ''http: invalid pattern''
      else if p \<in> fst ` set m then Panic (''pattern conflicts with pattern '' @ p)
      else Return (m @ [(p, h)]))"

fun mux_Handle_all :: "(string \<times> route) list \<Rightarrow> mux \<Rightarrow> mux call" where
  "mux_Handle_all [] m = Return m"
| "mux_Handle_all ((p, h) # rs) m =
     (case mux_Handle p h m of Panic e \<Rightarrow> Panic e | Return m' \<Rightarrow> mux_Handle_all rs m')"

definition api_routes :: "SwaggerAPIConfig \<Rightarrow> (string \<times> route) list" where
  "api_routes api = [(sw_JSONPath api, SwaggerJSON (sw_JSONFile api)), (sw_UIPath api, SwaggerUI (sw_JSONPath api))]"

definition buildGatewayHTTPHandler :: "SwaggerConfig \<Rightarrow> (go_error + gw_handler) call" where
  "buildGatewayHTTPHandler config =
     (if \<not> sw_Enabled config then Return (Inr GatewayMux)
      else if sw_APIs config = []
      then Return (Inl (ErrorString ''swagger is enabled, but no Swagger APIs are configured''))
      else case validateSwaggerConfig config of
        Some err \<Rightarrow> Return (Inl err)
      | None \<Rightarrow>
          (case mux_Handle_all (concat (map api_routes (sw_APIs config)) @ [(''/'', ToGateway)]) [] of
             Panic e \<Rightarrow> Panic e
           | Return m \<Rightarrow> Return (Inr (RootMux m))))"

text \<open>\<open>file\<close> is what \<^verbatim>\<open>http.ServeFile\<close> sends; the other branch is \<^verbatim>\<open>http.Error\<close>.\<close>

definition swaggerJSONHandler :: "rw_call list \<Rightarrow> string \<Rightarrow> rw_call list" where
  "swaggerJSONHandler file meth =
     (if meth \<noteq> ''GET'' \<and> meth \<noteq> ''HEAD''
      then [CHeader ''Allow'' ''GET, HEAD'', CHeader ''Content-Type'' ''text/plain; charset=utf-8'',
            CHeader ''X-Content-Type-Options'' ''nosniff'', CWriteHeader 405,
            CWrite (map of_char ''Method Not Allowed'' @ [10])]
      else CHeader ''Content-Type'' ''application/json; charset=utf-8'' # file)"

definition ToLower :: "string \<Rightarrow> string" where
  "ToLower s = map (\<lambda>c. let n = (of_char c :: nat) in if 65 \<le> n \<and> n \<le> 90 then char_of (n + 32) else c) s"

definition IncomingHeaderMatcher :: "(string \<Rightarrow> string \<times> bool) \<Rightarrow> string \<Rightarrow> string \<times> bool" where
  "IncomingHeaderMatcher defaultMatcher header =
     (let h = ToLower header in
      if h = ''authorization'' then (''authorization'', True)
      else if h = ''x-request-id'' then (''x-request-id'', True)
      else if h = ''x-correlation-id'' then (''x-correlation-id'', True)
      else if h = ''cookie'' then (''cookie'', True)
      else defaultMatcher header)"

text \<open>\<open>code\<close> is \<^verbatim>\<open>status.Code(err)\<close>; \<open>payload\<close> the encoded body.\<close>

definition GatewayErrorHandler :: "(string \<Rightarrow> int) \<Rightarrow> string \<Rightarrow> string \<Rightarrow> bytes \<Rightarrow> rw_call list" where
  "GatewayErrorHandler httpStatusFromCode contentType code payload =
     (let httpStatus = (if code = ''Unknown'' then StatusInternalServerError else httpStatusFromCode code)
      in [CHeader ''Content-Type'' contentType, CWriteHeader httpStatus, CWrite payload])"

section \<open>grpc\_gateway.go: the server\<close>

record gateway_http =
  gh_Addr :: string
  gh_Handler :: gw_handler
  gh_ReadHeaderTimeout :: duration
  gh_ReadTimeout :: duration
  gh_WriteTimeout :: duration
  gh_IdleTimeout :: duration
  gh_MaxHeaderBytes :: int

record GRPCGatewayServer =
  gws_configs :: GRPCGatewayConfigs
  gws_server :: "gateway_http option"
  gws_serving :: bool

text \<open>
  \<open>register\<close> is \<^verbatim>\<open>registerFunc\<close> (\<open>None\<close> for nil) with the endpoint and the dial options it is given, \<open>insecure\<close>
  the option used when there is none, \<open>listen\<close> the error of \<^verbatim>\<open>net.Listen\<close>.
\<close>

definition gateway_Start ::
    "'o \<Rightarrow> (string \<Rightarrow> 'o list \<Rightarrow> go_error option) option \<Rightarrow> 'o list \<Rightarrow> go_error option \<Rightarrow> bool \<Rightarrow> GRPCGatewayServer
       \<Rightarrow> (GRPCGatewayServer \<times> go_error option) call" where
  "gateway_Start insecure register dialOptions listen done_at_start s =
     (case register of
        None \<Rightarrow> Return (s, Some (ErrorString ''grpcs gateway registration function is required''))
      | Some reg \<Rightarrow>
          let c = gws_configs s; dialOptions = (if length dialOptions = 0 then [insecure] else dialOptions) in
          (case reg (gw_GRPCEndpoint c) dialOptions of
             Some err \<Rightarrow> Return (s, Some (wrapf ''register gateway handlers'' err))
           | None \<Rightarrow>
               (case buildGatewayHTTPHandler (gw_Swagger c) of
                  Panic e \<Rightarrow> Panic e
                | Return (Inl err) \<Rightarrow> Return (s, Some (wrapf ''build gateway HTTP handler'' err))
                | Return (Inr h) \<Rightarrow>
                    let s1 = s\<lparr>gws_server := Some \<lparr>gh_Addr = gw_HTTPAddr c, gh_Handler = h,
                          gh_ReadHeaderTimeout = gw_ReadHeaderTimeout c, gh_ReadTimeout = gw_ReadTimeout c,
                          gh_WriteTimeout = gw_WriteTimeout c, gh_IdleTimeout = gw_IdleTimeout c,
                          gh_MaxHeaderBytes = gw_MaxHeaderBytes c\<rparr>\<rparr> in
                    (case listen of
                       Some err \<Rightarrow> Return (s1, Some (wrapf (''listen grpcs gateway on '' @ gw_Network c @ ''/'' @ gw_HTTPAddr c) err))
                     | None \<Rightarrow>
                         Return (fst (GoRecover done_at_start (\<lambda>s. (s\<lparr>gws_serving := True\<rparr>, None)) s1), None)))))"

text \<open>
  \<^verbatim>\<open>shutdown\<close> at the instant \<open>t\<close>: \<open>srv_Shutdown\<close> is the error \<^verbatim>\<open>Shutdown\<close> returns for its context; after a failed
  graceful shutdown comes \<^verbatim>\<open>Close\<close>.
\<close>

definition gateway_shutdown ::
    "nat \<Rightarrow> instant \<Rightarrow> (ctx \<Rightarrow> go_error option) \<Rightarrow> GRPCGatewayServer \<Rightarrow> GRPCGatewayServer \<times> grpc_end option" where
  "gateway_shutdown i t srv_Shutdown s =
     (case gws_server s of
        None \<Rightarrow> (s, None)
      | Some _ \<Rightarrow>
          (s\<lparr>gws_serving := False\<rparr>,
           Some (if srv_Shutdown (WithTimeout i (t + gw_ShutdownTimeout (gws_configs s)) Background) = None
                 then StoppedGracefully else StopForced)))"

text \<open>The handlers can be registered and the Swagger configuration can be served.\<close>

definition gateway_registers :: "(string \<Rightarrow> 'o list \<Rightarrow> go_error option) option \<Rightarrow> 'o list \<Rightarrow> GRPCGatewayServer \<Rightarrow> bool" where
  "gateway_registers register dial s \<longleftrightarrow>
     (case register of None \<Rightarrow> False | Some reg \<Rightarrow> reg (gw_GRPCEndpoint (gws_configs s)) dial = None) \<and>
     (\<exists>h. buildGatewayHTTPHandler (gw_Swagger (gws_configs s)) = Return (Inr h))"

definition demo_gateway :: GRPCGatewayServer where
  "demo_gateway = \<lparr>gws_configs = \<lparr>gw_HTTPAddr = '':80'', gw_GRPCEndpoint = '':90'', gw_Network = ''tcp'', gw_ReadHeaderTimeout = 0,
     gw_ReadTimeout = 0, gw_WriteTimeout = 0, gw_IdleTimeout = 0, gw_ShutdownTimeout = 0, gw_MaxHeaderBytes = 0,
     gw_Swagger = \<lparr>sw_Enabled = False, sw_APIs = []\<rparr>\<rparr>, gws_server = None, gws_serving = False\<rparr>"

definition literal :: "string \<Rightarrow> bool" where
  "literal p \<longleftrightarrow> list_all (\<lambda>c. c \<notin> set ''{} %'') p"

definition all_paths :: "SwaggerAPIConfig list \<Rightarrow> string list" where
  "all_paths apis = concat (map (\<lambda>api. [sw_UIPath api, sw_JSONPath api]) apis)"

definition demo_api :: "string \<Rightarrow> SwaggerAPIConfig" where
  "demo_api ui = \<lparr>sw_Name = ''goods'', sw_UIPath = ui, sw_JSONPath = ''/goods.json'', sw_JSONFile = ''goods.json''\<rparr>"

section \<open>Lemmas\<close>

lemma validateSwaggerAPIConfig_None:
  "validateSwaggerAPIConfig c = None \<longleftrightarrow>
     sw_Name c \<noteq> '''' \<and> sw_UIPath c \<noteq> '''' \<and> sw_JSONPath c \<noteq> '''' \<and> sw_JSONFile c \<noteq> '''' \<and>
     HasPrefix (sw_UIPath c) ''/'' \<and> HasSuffix (sw_UIPath c) ''/'' \<and>
     HasPrefix (sw_JSONPath c) ''/'' \<and> \<not> HasSuffix (sw_JSONPath c) ''/''"
  by (auto simp: validateSwaggerAPIConfig_def Let_def)

lemma valid_api_paths:
  "validateSwaggerAPIConfig c = None \<Longrightarrow> sw_UIPath c \<noteq> sw_JSONPath c \<and> sw_JSONPath c \<noteq> sw_UIPath c"
  by (auto simp: validateSwaggerAPIConfig_None)

lemma validate_apis_None:
  "validate_apis index R apis = None \<longleftrightarrow>
     (\<forall>api \<in> set apis. validateSwaggerAPIConfig api = None) \<and> distinct (all_paths apis) \<and>
     (\<forall>p \<in> set (all_paths apis). R p = None)"
proof (induction apis arbitrary: index R)
  case (Cons api apis)
  have "all_paths (api # apis) = sw_UIPath api # sw_JSONPath api # all_paths apis"
    by (simp add: all_paths_def)
  with Cons.IH show ?case
    by (auto simp: Let_def valid_api_paths split: option.splits if_splits)
qed (simp add: all_paths_def)

lemma mux_Handle_all_distinct:
  assumes "distinct (map fst rs)" and "'''' \<notin> fst ` set rs" and "fst ` set rs \<inter> fst ` set m = {}"
  shows "mux_Handle_all rs m = Return (m @ rs)"
  using assms
proof (induction rs arbitrary: m)
  case (Cons r rs)
  obtain p h where r: "r = (p, h)" by fastforce
  with Cons.prems have "mux_Handle p h m = Return (m @ [(p, h)])"
    by (auto simp: mux_Handle_def image_iff)
  with Cons.IH [of "m @ [(p, h)]"] Cons.prems r show ?case by (auto simp: image_iff)
qed simp

lemma mux_Handle_all_panics:
  assumes "p \<in> fst ` set m" and "p \<in> fst ` set rs"
  shows "\<exists>e. mux_Handle_all rs m = Panic e"
  using assms
proof (induction rs arbitrary: m)
  case (Cons r rs)
  obtain q h where r: "r = (q, h)" by fastforce
  show ?case
  proof (cases "mux_Handle q h m")
    case (Return m')
    with Cons.prems r have "p \<in> fst ` set m'" "p \<in> fst ` set rs"
      by (auto simp: mux_Handle_def image_iff split: if_splits)
    from Cons.IH [OF this] Return r show ?thesis by simp
  qed (simp add: r)
qed simp

lemma mux_Handle_all_append:
  "mux_Handle_all (rs @ rs') m =
     (case mux_Handle_all rs m of Panic e \<Rightarrow> Panic e | Return m' \<Rightarrow> mux_Handle_all rs' m')"
  by (induction rs m rule: mux_Handle_all.induct) (auto split: call.splits)

lemma api_routes_paths:
  "fst ` set (concat (map api_routes apis)) = set (all_paths apis)"
  "distinct (all_paths apis) \<Longrightarrow> distinct (map fst (concat (map api_routes apis)))"
proof -
  show keys: "fst ` set (concat (map api_routes apis)) = set (all_paths apis)" for apis
    by (induction apis) (auto simp: api_routes_def all_paths_def)
  show "distinct (all_paths apis) \<Longrightarrow> distinct (map fst (concat (map api_routes apis)))"
  proof (induction apis)
    case (Cons api apis)
    have "set (map fst (concat (map api_routes apis))) = set (all_paths apis)"
      using keys [of apis] by simp
    with Cons show ?case by (auto simp: api_routes_def all_paths_def)
  qed (simp add: all_paths_def)
qed

section \<open>Properties\<close>

text \<open>
  C32. \<^verbatim>\<open>validateSwaggerConfig\<close> accepts exactly the configurations in which every API has a name, a file, a UI
  path that starts and ends with a slash and a JSON path that starts but does not end with one, and in
  which no two of all these paths are equal.
\<close>

theorem validateSwaggerConfig_iff:
  "validateSwaggerConfig config = None \<longleftrightarrow>
     list_all (\<lambda>c. sw_Name c \<noteq> '''' \<and> sw_JSONFile c \<noteq> '''' \<and>
       HasPrefix (sw_UIPath c) ''/'' \<and> HasSuffix (sw_UIPath c) ''/'' \<and>
       HasPrefix (sw_JSONPath c) ''/'' \<and> \<not> HasSuffix (sw_JSONPath c) ''/'') (sw_APIs config) \<and>
     distinct (all_paths (sw_APIs config))"
proof -
  have "HasPrefix p ''/'' \<Longrightarrow> p \<noteq> ''''" for p by (auto simp: HasPrefix_def)
  then show ?thesis
    by (auto simp: validateSwaggerConfig_def validate_apis_None validateSwaggerAPIConfig_None list_all_iff)
qed

text \<open>
  C33. For an accepted configuration with literal paths the handler is built with one route per path and the
  gateway behind everything else, unless a UI path is the root: that one is accepted too, and registering
  the gateway then panics.
\<close>

theorem buildGatewayHTTPHandler_spec:
  assumes "sw_Enabled config" and "sw_APIs config \<noteq> []" and "validateSwaggerConfig config = None"
    and "\<forall>p \<in> set (all_paths (sw_APIs config)). literal p"
  shows "if ''/'' \<in> sw_UIPath ` set (sw_APIs config) then (\<exists>e. buildGatewayHTTPHandler config = Panic e)
    else buildGatewayHTTPHandler config =
      Return (Inr (RootMux (concat (map api_routes (sw_APIs config)) @ [(''/'', ToGateway)])))"
proof -
  let ?apis = "sw_APIs config" and ?rs = "concat (map api_routes (sw_APIs config))"
  have v: "\<forall>api \<in> set ?apis. validateSwaggerAPIConfig api = None" "distinct (all_paths ?apis)"
    using assms(3) by (auto simp: validateSwaggerConfig_def validate_apis_None)
  have nonempty: "'''' \<notin> set (all_paths ?apis)"
    using v(1) by (auto simp: all_paths_def validateSwaggerAPIConfig_None)
  have slash: "''/'' \<in> set (all_paths ?apis) \<longleftrightarrow> ''/'' \<in> sw_UIPath ` set ?apis"
  proof -
    have "sw_JSONPath api \<noteq> ''/''" if "api \<in> set ?apis" for api
      using v(1) that by (auto simp: validateSwaggerAPIConfig_None HasSuffix_def)
    then show ?thesis by (force simp: all_paths_def)
  qed
  have "mux_Handle_all ?rs [] = Return ?rs"
    using mux_Handle_all_distinct [of ?rs "[]"] api_routes_paths v(2) nonempty by simp
  then have m: "mux_Handle_all (?rs @ [(''/'', ToGateway)]) [] = mux_Handle_all [(''/'', ToGateway)] ?rs"
    by (simp add: mux_Handle_all_append)
  have "mux_Handle_all [(''/'', ToGateway)] ?rs =
      (if ''/'' \<in> set (all_paths ?apis) then Panic (''pattern conflicts with pattern '' @ ''/'')
       else Return (?rs @ [(''/'', ToGateway)]))"
    using api_routes_paths(1) [of ?apis] by (simp add: mux_Handle_def)
  with m slash assms(1-3) show ?thesis by (auto simp: buildGatewayHTTPHandler_def)
qed

theorem buildGatewayHTTPHandler_spec_witness:
  "\<exists>e. buildGatewayHTTPHandler \<lparr>sw_Enabled = True, sw_APIs = [demo_api ''/'']\<rparr> = Panic e"
proof -
  let ?c = "\<lparr>sw_Enabled = True, sw_APIs = [demo_api ''/'']\<rparr>"
  have "validateSwaggerConfig ?c = None"
    by (simp add: validateSwaggerConfig_iff all_paths_def demo_api_def HasPrefix_def HasSuffix_def)
  moreover have "\<forall>p \<in> set (all_paths (sw_APIs ?c)). literal p"
    by (simp add: all_paths_def demo_api_def literal_def)
  ultimately show ?thesis
    using buildGatewayHTTPHandler_spec [of ?c] by (simp add: demo_api_def)
qed

text \<open>
  \<^verbatim>\<open>EnforceMaxSendSize\<close> never lets a message above the limit through, passes errors and smaller messages
  unchanged, and turns a message that is too large into \<^verbatim>\<open>ResourceExhausted\<close>.
\<close>

theorem EnforceMaxSendSize_spec:
  "case EnforceMaxSendSize proto_Size max_size (resp, err) of
     (resp', err') \<Rightarrow>
       (err \<noteq> None \<longrightarrow> resp' = resp \<and> err' = err) \<and>
       (err = None \<longrightarrow> (\<forall>m. resp' = ProtoMessage m \<longrightarrow> proto_Size m \<le> max_size)) \<and>
       (err = None \<longrightarrow> (case resp of
          ProtoMessage m \<Rightarrow>
            if proto_Size m \<le> max_size then resp' = resp \<and> err' = None
            else resp' = NilResp \<and> (\<exists>msg. err' = Some (StatusError ''ResourceExhausted'' msg))
        | _ \<Rightarrow> resp' = resp \<and> err' = None))"
  by (auto simp: EnforceMaxSendSize_def split: grpc_resp.splits)

theorem EnforceMaxSendSize_spec_witness:
  "fst (EnforceMaxSendSize (\<lambda>m::int. m) 10 (ProtoMessage 11, None)) = NilResp"
  using EnforceMaxSendSize_spec [where proto_Size = "\<lambda>m::int. m" and max_size = 10 and resp = "ProtoMessage 11" and err = None]
  by (simp split: prod.splits)



text \<open>
  C34. \<^verbatim>\<open>Start\<close> of the gateway, all outcomes: without a registration function, or when registering, the Swagger
  configuration or listening fails, it returns an error and nothing serves; only after a failure to listen
  is a server left behind. Otherwise it returns no error and serves, unless the context was done already,
  in which case nothing serves although no error is returned.
\<close>

theorem gateway_Start_spec:
  assumes "gateway_Start insecure register dialOptions listen done_at_start s = Return (s', err)"
    and "\<not> gws_serving s" and "gws_server s = None"
  shows "(err = None \<longleftrightarrow> gateway_registers register (if dialOptions = [] then [insecure] else dialOptions) s \<and> listen = None) \<and>
    (gws_serving s' \<longleftrightarrow> err = None \<and> \<not> done_at_start) \<and>
    (gws_server s' \<noteq> None \<longleftrightarrow> gateway_registers register (if dialOptions = [] then [insecure] else dialOptions) s) \<and>
    gws_configs s' = gws_configs s"
  using assms
  by (auto simp: gateway_registers_def gateway_Start_def Let_def GoRecover_def split: option.splits call.splits sum.splits if_splits)

theorem gateway_Start_spec_witness:
  "\<exists>s'. gateway_Start () (Some (\<lambda>_ _. None)) [] None True demo_gateway = Return (s', None) \<and> \<not> gws_serving s'"
proof -
  obtain s' where g: "gateway_Start () (Some (\<lambda>_ _. None)) [] None True demo_gateway = Return (s', None)"
    by (simp add: gateway_Start_def buildGatewayHTTPHandler_def Let_def demo_gateway_def)
  have "\<not> gws_serving demo_gateway" "gws_server demo_gateway = None" by (simp_all add: demo_gateway_def)
  from gateway_Start_spec [OF g this] have "\<not> gws_serving s'" by simp
  with g show ?thesis by blast
qed

text \<open>
  The four headers the services rely on pass the gateway under their lower-case names whatever case the
  client used; for all others the library decides.
\<close>

theorem IncomingHeaderMatcher_spec:
  "IncomingHeaderMatcher m h =
     (if ToLower h \<in> {''authorization'', ''x-request-id'', ''x-correlation-id'', ''cookie''} then (ToLower h, True) else m h)"
  by (auto simp: IncomingHeaderMatcher_def Let_def)

end
