(* ===== verification/Examples.thy ===== *)
theory Examples
  imports Kernel Scheduler Http_Server Redis_Client
begin

text \<open>
  The two programs under \<^verbatim>\<open>examples/cmd\<close>, which put the components together: \<^verbatim>\<open>chi/main.go\<close> runs an HTTP
  server under a kernel of its own making, \<^verbatim>\<open>run/main.go\<close> gives a server, a scheduler and a supervisor to
  \<^verbatim>\<open>RunKernel\<close>. The world of the kernel is the state of the server, the clock, what \<^verbatim>\<open>srv.Shutdown\<close> was
  called with, and the scheduler. The pointer \<^verbatim>\<open>storage\<close> is shared by the server and the middleware, so a
  handler is built for the state it finds at the time of the request.
\<close>

section \<open>The world\<close>

record ex_world =
  ex_state :: PreShutdownState
  ex_now :: instant
  ex_down :: "(ctx \<times> instant) option"
  ex_sched :: JobScheduler

text \<open>The function \<^verbatim>\<open>CreateHTTPChiServer\<close> returns; \<open>took\<close> is the time \<^verbatim>\<open>srv.Shutdown\<close> takes.\<close>

definition http_stop :: "nat \<Rightarrow> duration \<Rightarrow> ex_world body" where
  "http_stop i took w =
     (case chi_shutdown i (ex_now w) took (Some (ex_state w)) of
        (c, called, states) \<Rightarrow>
          (w\<lparr>ex_now := called + took, ex_down := Some (c, called),
             ex_state := fold (\<lambda>(t, st) s. s\<lparr>ps_State := st\<rparr>) states (ex_state w)\<rparr>, None))"

definition str_bytes :: "string \<Rightarrow> bytes" where
  "str_bytes s = map (\<lambda>c. word_of_nat (of_char c)) s"

section \<open>chi/main.go\<close>

text \<open>The handler sleeps three seconds: \<open>env\<close> is the clock and the cancelled contexts it wakes up to.\<close>

definition ping :: "ctx_env \<Rightarrow> handler" where
  "ping env r =
     (if ctx_done env r then ([CWriteHeader 408, CWrite (str_bytes ''request timeout'')], None)
      else ([CWriteHeader StatusOK, CWrite (str_bytes ''pong'')], None))"

definition chi_draining :: "rw_call list" where
  "chi_draining = [CWriteHeader StatusServiceUnavailable, CWrite (str_bytes ''server in draining state try again'')]"

definition chi_storage :: PreShutdownState where
  "chi_storage = NewPreShutdownState True (10 * Second) (5 * Second)"

definition chi_routes ::
    "'r router_ops \<Rightarrow> PreShutdownState \<Rightarrow> string \<Rightarrow> nat \<Rightarrow> instant \<Rightarrow> ctx_env \<Rightarrow> 'r HTTPServerChi \<Rightarrow> 'r HTTPServerChi" where
  "chi_routes lib storage corrID i t env s =
     (let s = s\<lparr>ch_Router := ro_Route lib ''/api'' (\<lambda>r.
            let r = ro_Use lib [DrainMiddleware (Some storage) (Some chi_draining)] r;
                r = ro_Use lib [RequestTimeout i t (2 * Second)] r;
                r = ro_Use lib [logging_chi corrID] r
            in ro_Get lib ''/ping'' (ping env) r) (ch_Router s)\<rparr>
      in ApplyServerOptions [server_option.WithReadTimeout (5 * Second), WithWriteTimeout (10 * Second), WithIdleTimeout (30 * Second),
           WithReadHeaderTimeout (2 * Second), WithMaxHeaderBytes 2097152] s)"

definition chi_server ::
    "'r router_ops \<Rightarrow> PreShutdownState \<Rightarrow> string \<Rightarrow> string \<Rightarrow> nat \<Rightarrow> instant \<Rightarrow> ctx_env \<Rightarrow> 'r HTTPServerChi \<times> http_Server" where
  "chi_server lib storage outerID innerID i t env =
     CreateHTTPChiServer lib (chi_routes lib storage innerID i t env) '':8088'' (Some storage)
       [RecoverChiMiddleware, logging_chi outerID]"

text \<open>
  \<^verbatim>\<open>RunMain\<close>: the kernel at the end, how \<^verbatim>\<open>Stop\<close> ended and the hooks that ran; \<open>None\<close> when it waits for
  ever. \<open>late\<close> are the signals that arrive while \<^verbatim>\<open>Run\<close> waits.
\<close>

definition chi_RunMain ::
    "'r router_ops \<Rightarrow> string \<Rightarrow> int \<Rightarrow> int \<Rightarrow> nat \<Rightarrow> duration \<Rightarrow> string list \<Rightarrow> ex_world
       \<Rightarrow> (ex_world kernel \<times> stop_result \<times> string list) option" where
  "chi_RunMain lib uuid gc procs i took late w =
     (let kl = Kernel.Start (NewDefaultKernel uuid gc procs False 1 100 w);
          (s, srv) = chi_server lib chi_storage '''' '''' i (ex_now w) \<lparr>env_cancelled = {}, env_now = ex_now w\<rparr>;
          kl = kl\<lparr>k_world := (k_world kl)\<lparr>ex_state := the (ch_preShutdownState s)\<rparr>\<rparr>
      in case Kernel_RegisterShutdown ''chi_http_server'' (Some (http_stop i took)) ImmediatePriority kl of
           None \<Rightarrow> None
         | Some kl \<Rightarrow>
             (case Run late kl of None \<Rightarrow> None
              | Some kl \<Rightarrow> map_option Kernel_Stop (RegisterRecovers None kl)))"

section \<open>run/main.go\<close>

definition heartbeat :: JobConfiguration where
  "heartbeat = \<lparr>Name = ''heartbeat'', Func = (\<lambda>_. Return None), Tick = 5 * Second, Deadline = 2 * Second,
     cfg_StopMode = StopImmediate\<rparr>"

definition watchdog_Cron :: string where "watchdog_Cron = ''watchdog_cron''"

definition run_dsn :: string where
  "run_dsn = ''redis://:qwerty12345@localhost:26379?master_name=mymaster&password=qwerty12345''"

text \<open>The callback marshals an error message, but writes the header only.\<close>

definition run_draining :: "rw_call list" where
  "run_draining = [CHeader ''Content-Type'' ''application/json'', CWriteHeader StatusServiceUnavailable]"

definition run_storage :: PreShutdownState where
  "run_storage = NewPreShutdownState True (1 * Second) (1 * Second)"

definition run_routes ::
    "'r router_ops \<Rightarrow> PreShutdownState \<Rightarrow> string \<Rightarrow> 'r HTTPServerChi \<Rightarrow> 'r HTTPServerChi" where
  "run_routes lib storage corrID s =
     (let r = ro_Use lib [RecoverChiMiddleware, logging_chi corrID] (ch_Router s);
          r = ro_Use lib [DrainMiddleware (Some storage) (Some run_draining)] r;
          r = ro_Get lib ''/health'' (\<lambda>_. ([CWriteHeader 200], None)) r
      in s\<lparr>ch_Router := r\<rparr>)"

definition run_server :: "'r router_ops \<Rightarrow> PreShutdownState \<Rightarrow> string \<Rightarrow> 'r HTTPServerChi \<times> http_Server" where
  "run_server lib storage corrID =
     CreateHTTPChiServer lib (run_routes lib storage corrID) '':8083'' (Some storage) []"

text \<open>
  The scheduler's methods as functions on the world. \<open>waited\<close> is the scheduler after the wait of \<^verbatim>\<open>Stop\<close>,
  which depends on its goroutines. A callback has no value for a call that hangs on a mutex; the schedulers
  below have theirs free.
\<close>

definition sched_Start :: "ctx \<Rightarrow> ex_world body" where
  "sched_Start ctx w =
     (case Scheduler.Start ctx (ex_sched w) of
        (s, Panics e) \<Rightarrow> (w\<lparr>ex_sched := s\<rparr>, Some e) | (s, _) \<Rightarrow> (w\<lparr>ex_sched := s\<rparr>, None))"

definition sched_Stop :: "(JobScheduler \<Rightarrow> JobScheduler) \<Rightarrow> ex_world body" where
  "sched_Stop waited w =
     (case Stop_signal (ex_sched w) of
        (s, Panics e) \<Rightarrow> (w\<lparr>ex_sched := s\<rparr>, Some e) | (s, _) \<Rightarrow> (w\<lparr>ex_sched := waited s\<rparr>, None))"

text \<open>
  The execution: an error of \<^verbatim>\<open>NewRedisClient\<close> is returned after both hooks were registered. \<open>redis\<close> holds
  the parsers of connection strings, \<open>rnd\<close> is the random number of \<^verbatim>\<open>Elect\<close>. The walk along the list of
  hooks ends on every list \<^verbatim>\<open>RegisterShutdown\<close> builds; for the others there is no value to give.
\<close>

record redis_parsers =
  rp_master_name :: "string \<Rightarrow> go_error + string"
  rp_ParseURL :: "string \<Rightarrow> go_error + redis_Options"
  rp_ParseFailoverURL :: "string \<Rightarrow> go_error + redis_FailoverOptions"

definition run_supervisor :: "(JobScheduler \<Rightarrow> JobScheduler) \<Rightarrow> watchdog \<Rightarrow> ex_world LeaderSupervisor" where
  "run_supervisor waited wd =
     \<lparr>SupervisorName = ''cron-supervisor'', Watcher = wd_watcher wd, Watcher_closed = wd_closed wd,
      sup_Start = sched_Start (WithCancel 0 Background), sup_Stop = sched_Stop waited,
      sup_cancelled = False, sup_locked = False, sup_goroutines = 0, Working = False, sup_calls = []\<rparr>"

definition run_leadership ::
    "redis_parsers \<Rightarrow> int \<Rightarrow> (JobScheduler \<Rightarrow> JobScheduler) \<Rightarrow> ex_world execution" where
  "run_leadership redis rnd waited k =
     (case NewRedisClient (rp_master_name redis) (rp_ParseURL redis) (rp_ParseFailoverURL redis) run_dsn [] of
        Inl err \<Rightarrow> (k, Return (Some err))
      | Inr rdb \<Rightarrow>
          (case Elect rnd (k_ctx_done k) \<lparr>ElectionName = watchdog_Cron, Expiration = 0\<rparr> of
             Panic p \<Rightarrow> (k, Panic p)
           | Return (cfg, wd) \<Rightarrow>
               (RegisterWatchdogsLeadership (Some (run_supervisor waited wd)) k, Return None)))"

definition run_execution ::
    "'r router_ops \<Rightarrow> redis_parsers \<Rightarrow> int \<Rightarrow> (JobScheduler \<Rightarrow> JobScheduler) \<Rightarrow> nat \<Rightarrow> duration \<Rightarrow> ex_world execution" where
  "run_execution lib redis rnd waited i took k =
     (let (s, srv) = run_server lib run_storage '''';
          sch = fst (Add heartbeat (NewJobScheduler (js_env (ex_sched (k_world k))) 1 1));
          k = k\<lparr>k_world := (k_world k)\<lparr>ex_state := the (ch_preShutdownState s), ex_sched := sch\<rparr>\<rparr>
      in case Kernel_RegisterShutdown ''http'' (Some (http_stop i took)) HighPriority k of
           None \<Rightarrow> (k, Panic ''no value'')
         | Some k1 \<Rightarrow>
             (case Kernel_RegisterShutdown ''scheduler'' (Some (sched_Stop waited)) MediumPriority k1 of
                None \<Rightarrow> (k1, Panic ''no value'')
              | Some k2 \<Rightarrow> run_leadership redis rnd waited k2))"

definition run_main ::
    "'r router_ops \<Rightarrow> redis_parsers \<Rightarrow> int \<Rightarrow> (JobScheduler \<Rightarrow> JobScheduler) \<Rightarrow> nat \<Rightarrow> duration
       \<Rightarrow> string \<Rightarrow> int option \<Rightarrow> string list \<Rightarrow> ex_world kernel
       \<Rightarrow> (ex_world kernel \<times> stop_result \<times> string list) option" where
  "run_main lib redis rnd waited i took uuid auto_procs late k0 =
     RunKernel uuid auto_procs late
       [WithConfigs \<lparr>KernelId = '''', Cores = 0, HeapOverflow = 100\<rparr>,
        WithExecution (run_execution lib redis rnd waited i took)] k0"

definition demo_world :: ex_world where
  "demo_world = \<lparr>ex_state = chi_storage, ex_now = 0, ex_down = None, ex_sched = NewJobScheduler (demo_env False) 1 1\<rparr>"

definition demo_parsers :: redis_parsers where
  "demo_parsers =
     \<lparr>rp_master_name = (\<lambda>_. Inr ''mymaster''), rp_ParseURL = (\<lambda>_. Inl (ErrorString ''invalid URL'')),
      rp_ParseFailoverURL = (\<lambda>_. Inr \<lparr>fo_MasterName = ''mymaster'', fo_SentinelAddrs = [''localhost:26379''],
         fo_Password = ''qwerty12345'', fo_SentinelPassword = '''', fo_DialTimeout = 0, fo_ReadTimeout = 0,
         fo_MaxRetries = 0, fo_MaxRetryBackoff = 0\<rparr>)\<rparr>"

section \<open>The router\<close>

lemma router_simps:
  assumes "router_contract lib"
  shows "ro_view lib (ro_NewRouter lib) = ([], [])"
    and "snd (ro_view lib r) = [] \<Longrightarrow> ro_view lib (ro_Use lib mws r) = (fst (ro_view lib r) @ mws, [])"
    and "ro_view lib (ro_Get lib p h r) = (fst (ro_view lib r), snd (ro_view lib r) @ [(p, h)])"
    and "ro_view lib (ro_Route lib p f r) = (fst (ro_view lib r), snd (ro_view lib r) @
       map (\<lambda>(q, h). (p @ q, wrap_all (fst (ro_view lib (f (ro_NewRouter lib)))) h)) (snd (ro_view lib (f (ro_NewRouter lib)))))"
    and "map_of (snd (ro_view lib r)) url = Some h' \<Longrightarrow> ro_ServeHTTP lib r url = wrap_all (fst (ro_view lib r)) h'"
  using assms unfolding router_contract_def by blast+

lemma server_opts_Handler: "sv_Handler (fold server_opt opts s) = sv_Handler s"
proof (induction opts arbitrary: s)
  case (Cons opt opts)
  have "sv_Handler (server_opt opt s) = sv_Handler s" by (cases opt) simp_all
  with Cons show ?case by simp
qed simp

text \<open>The whole chain behind \<^verbatim>\<open>/api/ping\<close>, outermost first.\<close>

lemma chi_server_ping:
  assumes "router_contract lib"
  shows "sv_Handler (snd (chi_server lib storage outerID innerID i t env)) ''/api/ping'' =
    RecoverChiMiddleware (logging_chi outerID (DrainMiddleware (Some storage) (Some chi_draining)
      (RequestTimeout i t (2 * Second) (logging_chi innerID (ping env)))))"
proof -
  note rs = router_simps [OF assms]
  let ?g = "\<lambda>r. ro_Get lib ''/ping'' (ping env) (ro_Use lib [logging_chi innerID]
    (ro_Use lib [RequestTimeout i t (2 * Second)] (ro_Use lib [DrainMiddleware (Some storage) (Some chi_draining)] r)))"
  let ?r = "ro_Route lib ''/api'' ?g (ro_Use lib [RecoverChiMiddleware, logging_chi outerID] (ro_NewRouter lib))"
  have v: "ro_view lib ?r = ([RecoverChiMiddleware, logging_chi outerID], [(''/api/ping'',
      DrainMiddleware (Some storage) (Some chi_draining) (RequestTimeout i t (2 * Second) (logging_chi innerID (ping env))))])"
    by (simp add: rs wrap_all_def)
  have "sv_Handler (snd (chi_server lib storage outerID innerID i t env)) = ro_ServeHTTP lib ?r"
    by (simp add: chi_server_def chi_routes_def CreateHTTPChiServer_def chi_apply_def newHTTPServer_def chi_run_def
        ApplyServerOptions_def server_opts_Handler new_server_def ifNil_def Let_def)
  with rs(5) [of ?r "''/api/ping''"] v show ?thesis by (simp add: wrap_all_def)
qed

lemma run_server_health:
  assumes "router_contract lib"
  shows "sv_Handler (snd (run_server lib storage corrID)) ''/health'' =
    RecoverChiMiddleware (logging_chi corrID (DrainMiddleware (Some storage) (Some run_draining) (\<lambda>_. ([CWriteHeader 200], None))))"
proof -
  note rs = router_simps [OF assms]
  let ?r = "ro_Get lib ''/health'' (\<lambda>_. ([CWriteHeader 200], None)) (ro_Use lib [DrainMiddleware (Some storage) (Some run_draining)]
    (ro_Use lib [RecoverChiMiddleware, logging_chi corrID] (ro_NewRouter lib)))"
  have v: "ro_view lib ?r = ([RecoverChiMiddleware, logging_chi corrID, DrainMiddleware (Some storage) (Some run_draining)],
      [(''/health'', \<lambda>_. ([CWriteHeader 200], None))])" by (simp add: rs)
  have "sv_Handler (snd (run_server lib storage corrID)) = ro_ServeHTTP lib ?r"
    by (simp add: run_server_def run_routes_def CreateHTTPChiServer_def chi_apply_def newHTTPServer_def chi_run_def
        server_opts_Handler new_server_def ifNil_def Let_def)
  with rs(5) [of ?r "''/health''"] v show ?thesis by (simp add: wrap_all_def)
qed

lemmas chain_defs = serve_def RecoverChiMiddleware_def logging_chi_def RequestTimeout_def ping_def chi_draining_def
  run_draining_def DrainMiddleware_def new_response_def http_WriteHeader_def http_Write_def Header_Set_def
  informational_def StatusServiceUnavailable_def StatusOK_def

section \<open>Properties\<close>

text \<open>
  C27. The ping of the chi example, through router, recovery, both logging writers, draining and timeout:
  with any router that keeps chi's contract, a request gets status 503 while the server drains, and
  otherwise status 408 with the text of a timeout, never the answer \<^verbatim>\<open>pong\<close>: the handler sleeps three
  seconds under a timeout of two.
\<close>

theorem chi_example_ping:
  assumes "router_contract lib" and "ps_Need storage" and "t + 3 * Second \<le> env_now env"
    and "serve (sv_Handler (snd (chi_server lib storage outerID innerID i t env)) ''/api/ping'') r new_response = (w, p)"
  shows "p = None \<and>
    (if ps_State storage = stateDraining
     then rs_status w = Some 503 \<and> rs_body w = str_bytes ''server in draining state try again'' \<and>
       rs_header w ''X-Correlation-ID'' = Some [outerID]
     else rs_status w = Some 408 \<and> rs_body w = str_bytes ''request timeout'' \<and>
       rs_header w ''X-Correlation-ID'' = Some [innerID])"
  using assms(2-4) unfolding chi_server_ping [OF assms(1)]
  by (auto simp: chain_defs Second_def)

theorem chi_example_ping_witness:
  "rs_status (fst (serve (sv_Handler (snd (chi_server list_router chi_storage ''a'' ''b'' 1 0
     \<lparr>env_cancelled = {}, env_now = 3 * Second\<rparr>)) ''/api/ping'') Background new_response)) = Some 408"
proof -
  have a: "ps_Need chi_storage" "0 + 3 * Second \<le> env_now \<lparr>env_cancelled = {}, env_now = 3 * Second\<rparr>"
    "ps_State chi_storage \<noteq> stateDraining"
    by (simp_all add: chi_storage_def NewPreShutdownState_def)
  from chi_example_ping [OF list_router_contract a(1,2) surjective_pairing] a(3) show ?thesis by auto
qed

lemma chi_state_running:
  "ch_preShutdownState (fst (chi_server lib chi_storage outerID innerID i t env)) = Some (chi_storage\<lparr>ps_State := stateRunning\<rparr>)"
  "ch_preShutdownState (fst (run_server lib run_storage corrID)) = Some (run_storage\<lparr>ps_State := stateRunning\<rparr>)"
  by (simp_all add: chi_server_def run_server_def CreateHTTPChiServer_def chi_run_def Let_def chi_storage_def
      run_storage_def NewPreShutdownState_def)

text \<open>
  The chi example stops on a signal: its only hook runs, the server ends in the state of a server that
  is shut down, and (because it drains for ten seconds out of a shutdown time of five) the context given
  to \<^verbatim>\<open>srv.Shutdown\<close> is done when the call is made, so that running requests are not waited for.
\<close>

theorem chi_example_stops:
  assumes "late \<noteq> []"
  shows "\<exists>k c. chi_RunMain lib uuid gc procs i took late w = Some (k, Stopped, [''chi_http_server'']) \<and>
    ps_State (ex_state (k_world k)) = stateShutdown \<and>
    ex_down (k_world k) = Some (c, ex_now w + 10 * Second) \<and>
    ctx_done \<lparr>env_cancelled = {}, env_now = ex_now w + 10 * Second\<rparr> c"
proof -
  let ?x = "\<lparr>hk_priority = ImmediatePriority, hk_name = ''chi_http_server'', hk_func = Some (http_stop i took)\<rparr>"
  let ?w = "w\<lparr>ex_state := chi_storage\<lparr>ps_State := stateRunning\<rparr>\<rparr>"
  obtain l where l: "RegisterShutdown new_linkedList ''chi_http_server'' (Some (http_stop i took)) ImmediatePriority = Some l"
      "hooks_rel l [?x]"
    using register_hook_refines [OF new_linkedList_rel, of ?x] by (auto simp: register_hook_def stable_insert_def)
  let ?kl = "(Kernel.Start (NewDefaultKernel uuid gc procs False 1 100 w))\<lparr>k_world := ?w\<rparr>"
  have kl: "k_shutdown ?kl = new_linkedList" "k_sig_reader ?kl" "k_leaderSupervisors ?kl = []"
    "k_world (Kernel.Start (NewDefaultKernel uuid gc procs False 1 100 w)) = w"
    by (simp_all add: Kernel.Start_def GoRecover_def NewDefaultKernel_def newKernel_def GOMAXPROCS_def Let_def)
  obtain k where k: "Run late (?kl\<lparr>k_shutdown := l\<rparr>) = Some k" "same_duties (?kl\<lparr>k_shutdown := l\<rparr>) k"
    using Run_spec [of "?kl\<lparr>k_shutdown := l\<rparr>" late] kl assms by auto
  obtain w' where w': "run_hooks [?x] ?w [] = ([], w', [''chi_http_server''], None)" "ps_State (ex_state w') = stateShutdown"
    "ex_down w' = Some (WithTimeout i (ex_now w + 5 * Second) Background, ex_now w + 10 * Second)"
    by (simp add: call_hook_def http_stop_def chi_shutdown_def chi_storage_def NewPreShutdownState_def Second_def Let_def)
  from k(2) kl l(2) w'(1) Kernel_Stop_idle [of k "[?x]" w'] obtain k' where
    "Kernel_Stop k = (k', Stopped, [''chi_http_server''])" "k_world k' = w'" by (auto simp: same_duties_def)
  moreover have "chi_RunMain lib uuid gc procs i took late w = Some (Kernel_Stop k)"
    using l(1) k(1) kl
    by (simp add: chi_RunMain_def Let_def Kernel_RegisterShutdown_def RegisterRecovers_def case_prod_beta chi_state_running)
  ultimately show ?thesis using w'(2,3) by (simp add: Second_def)
qed

theorem chi_example_stops_witness:
  "\<exists>k. chi_RunMain list_router ''id'' 100 4 1 0 [''SIGTERM''] demo_world = Some (k, Stopped, [''chi_http_server''])"
  using chi_example_stops [of "[''SIGTERM'']" list_router "''id''" 100 4 1 0 demo_world] by auto

text \<open>The hooks of the run example, and what it hands to the kernel.\<close>

lemma run_hooks_registered:
  assumes "k_shutdown k = new_linkedList" and "k_leaderSupervisors k = []"
  shows "\<exists>k2 r. run_execution lib redis rnd waited i took k = (k2, Return r) \<and>
    (r = None \<longleftrightarrow> (\<exists>c. NewRedisClient (rp_master_name redis) (rp_ParseURL redis) (rp_ParseFailoverURL redis) run_dsn [] = Inr c)) \<and>
    hooks_rel (k_shutdown k2) [\<lparr>hk_priority = HighPriority, hk_name = ''http'', hk_func = Some (http_stop i took)\<rparr>,
      \<lparr>hk_priority = MediumPriority, hk_name = ''scheduler'', hk_func = Some (sched_Stop waited)\<rparr>] \<and>
    all_unheard k2 \<and> (\<forall>s \<in> set (k_leaderSupervisors k2). \<not> sup_locked s) \<and>
    ps_State (ex_state (k_world k2)) = stateRunning \<and> ps_Need (ex_state (k_world k2)) \<and>
    \<not> js_started (ex_sched (k_world k2)) \<and> \<not> js_mu (ex_sched (k_world k2)) \<and>
    k_sig k2 = k_sig k \<and> k_sig_reader k2 = k_sig_reader k \<and> k_ctx_done k2 = k_ctx_done k"
proof -
  let ?a = "\<lparr>hk_priority = HighPriority, hk_name = ''http'', hk_func = Some (http_stop i took)\<rparr>"
  let ?b = "\<lparr>hk_priority = MediumPriority, hk_name = ''scheduler'', hk_func = Some (sched_Stop waited)\<rparr>"
  let ?sch = "fst (Add heartbeat (NewJobScheduler (js_env (ex_sched (k_world k))) 1 1))"
  let ?k = "k\<lparr>k_world := (k_world k)\<lparr>ex_state := run_storage\<lparr>ps_State := stateRunning\<rparr>, ex_sched := ?sch\<rparr>\<rparr>"
  obtain l1 where l1: "RegisterShutdown new_linkedList ''http'' (Some (http_stop i took)) HighPriority = Some l1" "hooks_rel l1 [?a]"
    using register_hook_refines [OF new_linkedList_rel, of ?a] by (auto simp: register_hook_def stable_insert_def)
  obtain l2 where l2: "RegisterShutdown l1 ''scheduler'' (Some (sched_Stop waited)) MediumPriority = Some l2" "hooks_rel l2 [?a, ?b]"
    using register_hook_refines [OF l1(2), of ?b]
    by (auto simp: register_hook_def stable_insert_def HighPriority_def MediumPriority_def)
  have e: "run_execution lib redis rnd waited i took k = run_leadership redis rnd waited (?k\<lparr>k_shutdown := l2\<rparr>)"
    using l1(1) l2(1) assms(1)
    by (simp add: run_execution_def Let_def Kernel_RegisterShutdown_def case_prod_beta chi_state_running)
  obtain cfg wd where el: "Elect rnd (k_ctx_done k) \<lparr>ElectionName = watchdog_Cron, Expiration = 0\<rparr> = Return (cfg, wd)"
    by (simp add: Elect_def Elect_config_def watchdog_Cron_def)
  have s: "\<not> js_started ?sch" "\<not> js_mu ?sch" "ps_Need run_storage"
    by (simp_all add: Add_def NewJobScheduler_def run_storage_def NewPreShutdownState_def)
  show ?thesis
    unfolding e using el s l2(2) assms(2)
    by (auto simp: run_leadership_def RegisterWatchdogsLeadership_def run_supervisor_def all_unheard_def unheard_def
        split: sum.splits)
qed

text \<open>
  C29. The run example never runs its heartbeat: it registers a supervisor but does not call
  \<^verbatim>\<open>StartWatchdogsLeadership\<close>, so whatever happens afterwards (events of the watchdog, the end of
  contexts, \<^verbatim>\<open>Stop\<close>), no callback of the supervisor is ever called.
\<close>

theorem run_example_never_leads:
  assumes "k_shutdown k = new_linkedList" and "k_leaderSupervisors k = []"
    and "run_execution lib redis rnd waited i took k = (k1, r)" and "kernel_step\<^sup>*\<^sup>* k1 k2"
  shows "\<forall>s \<in> set (k_leaderSupervisors k2). sup_calls s = [] \<and> \<not> Working s"
proof -
  have "all_unheard k1" using run_hooks_registered [OF assms(1,2), of lib redis rnd waited i took] assms(3) by auto
  with assms(4) have "all_unheard k2"
    by (induction rule: rtranclp_induct) (auto intro: kernel_step_unheard)
  then show ?thesis by (simp add: all_unheard_def unheard_def)
qed

text \<open>
  C28. The run example stops in order: on a signal, or at once when the Redis client cannot be made, the
  server's hook runs before the scheduler's, the server ends shut down, and \<^verbatim>\<open>RunKernel\<close> returns. It
  relies on nothing but that waiting for a scheduler that was never started changes nothing.
\<close>

theorem run_example_stops:
  assumes "late \<noteq> [] \<or> (\<exists>err. NewRedisClient (rp_master_name redis) (rp_ParseURL redis) (rp_ParseFailoverURL redis) run_dsn [] = Inl err)"
    and "\<And>s. \<not> js_started s \<Longrightarrow> waited s = s"
  shows "\<exists>k. run_main lib redis rnd waited i took uuid auto_procs late (newKernel gc procs w) =
      Some (k, Stopped, [''http'', ''scheduler'']) \<and>
    ps_State (ex_state (k_world k)) = stateShutdown \<and> \<not> js_started (ex_sched (k_world k))"
proof -
  let ?ex = "run_execution lib redis rnd waited i took"
  let ?hs = "[\<lparr>hk_priority = HighPriority, hk_name = ''http'', hk_func = Some (http_stop i took)\<rparr>,
    \<lparr>hk_priority = MediumPriority, hk_name = ''scheduler'', hk_func = Some (sched_Stop waited)\<rparr>]"
  obtain k where c: "configure uuid [WithConfigs \<lparr>KernelId = '''', Cores = 0, HeapOverflow = 100\<rparr>, WithExecution ?ex]
      (newKernel gc procs w) = (k, ?ex)"
    by (simp add: configure_def apply_option_def Let_def)
  then have k: "k_shutdown k = new_linkedList" "k_leaderSupervisors k = []" "k_sig k = []" "\<not> k_ctx_done k"
    by (auto simp: configure_def apply_option_def newKernel_def Let_def)
  let ?k = "Kernel.Start (setUp auto_procs k)"
  have st: "k_shutdown ?k = new_linkedList" "k_leaderSupervisors ?k = []" "k_sig ?k = []" "k_sig_reader ?k"
    using k by (simp_all add: Kernel.Start_def GoRecover_def setUp_def GOMAXPROCS_def Let_def split: option.splits)
  from run_hooks_registered [OF st(1,2), of lib redis rnd waited i took] obtain k2 r where
    e: "?ex ?k = (k2, Return r)" and h: "hooks_rel (k_shutdown k2) ?hs" and u: "all_unheard k2"
    and lk: "\<forall>s \<in> set (k_leaderSupervisors k2). \<not> sup_locked s"
    and s: "ps_Need (ex_state (k_world k2))" "\<not> js_started (ex_sched (k_world k2))" "\<not> js_mu (ex_sched (k_world k2))"
    and sg: "k_sig k2 = []" "k_sig_reader k2" and d: "late \<noteq> [] \<or> r \<noteq> None"
    using st assms(1) by auto
  obtain k3 where k3: "run_main lib redis rnd waited i took uuid auto_procs late (newKernel gc procs w) = Some (Kernel_Stop k3)"
    "same_duties k2 k3"
    using Run_spec [of k2 late] RegisterRecovers_spec [of k2 "''failed to execute kernel logic''"] d sg c e
    by (cases r) (auto simp: run_main_def RunKernel_def)
  obtain w' where w': "run_hooks ?hs (k_world k3) [] = ([], w', [''http'', ''scheduler''], None)"
    "ps_State (ex_state w') = stateShutdown" "\<not> js_started (ex_sched w')"
    using s k3(2) assms(2)
    by (auto simp: call_hook_def http_stop_def chi_shutdown_def sched_Stop_def Stop_signal_def same_duties_def Let_def)
  have "\<forall>s \<in> set (k_leaderSupervisors k3). \<not> sup_locked s \<and> \<not> Working s"
    using lk u k3(2) by (auto simp: same_duties_def all_unheard_def unheard_def)
  from Kernel_Stop_idle [OF this _ w'(1)] h k3 w'(2,3) show ?thesis by (auto simp: same_duties_def)
qed

theorem run_example_never_leads_witness:
  "\<exists>k1 r k2. run_execution list_router demo_parsers 0 (\<lambda>s. s) 1 0 (newKernel 100 4 demo_world) = (k1, r) \<and>
     kernel_step k1 k2 \<and> list_all (\<lambda>s. sup_calls s = [] \<and> \<not> Working s) (k_leaderSupervisors k2)"
proof -
  let ?k = "newKernel 100 4 demo_world"
  have k: "k_shutdown ?k = new_linkedList" "k_leaderSupervisors ?k = []" by (simp_all add: newKernel_def)
  obtain k1 r where e: "run_execution list_router demo_parsers 0 (\<lambda>s. s) 1 0 ?k = (k1, r)" by fastforce
  have st: "kernel_step k1 (k1\<lparr>k_ctx_done := True\<rparr>)" by (rule ks_cancel)
  from run_example_never_leads [OF k e r_into_rtranclp [of kernel_step, OF st]] e st show ?thesis
    by (auto simp: list_all_iff)
qed

theorem run_example_stops_witness:
  "\<exists>k. run_main list_router demo_parsers 0 (\<lambda>s. s) 1 0 ''id'' None [''SIGTERM''] (newKernel 100 4 demo_world) =
     Some (k, Stopped, [''http'', ''scheduler''])"
  using run_example_stops [of "[''SIGTERM'']" demo_parsers "\<lambda>s. s" list_router 0 1 0 "''id''" None 100 4 demo_world] by auto

end
