(* ===== verification/Spec2Isabelle.thy ===== *)
theory Spec2Isabelle
  imports Utils Byte_BTree Kernel_Shutdown Redis_Locker Watchdog Kernel Scheduler Readiness_Barrier
    Scheduler_Stop Scheduler_Overlap Election Leader_Service Timed_Election Bitmap_Storage Bitmap_Replicator
    Bitmap_Service Clickhouse Postgres Redis_Client Http_Server Http_Drain Grpc_Server Examples
begin

text \<open>
  \<^bold>\<open>A verification library for service-pkg.\<close>

  The program is a Go library for building services. A \<^emph>\<open>kernel\<close> (\<^verbatim>\<open>kernel/kernel.go\<close>) owns the life of the
  process: it runs the application's function, waits for a signal, stops the supervised jobs and runs
  the shutdown hooks in the order of their priorities. A \<^emph>\<open>watchdog\<close> (\<^verbatim>\<open>watchdog/\<close>) elects a leader among
  the processes of a service through a \<^emph>\<open>locker\<close> in Redis (\<^verbatim>\<open>locker/\<close>) and reports gained and lost
  leadership on a channel; the kernel's supervisors listen there and start or stop a \<^emph>\<open>scheduler\<close> of
  periodic jobs (\<^verbatim>\<open>scheduler/\<close>). Beside them stand a readiness barrier (\<^verbatim>\<open>readiness_barrier/\<close>), in-memory
  stores (\<^verbatim>\<open>database/in_memory_storage/\<close>), database and Redis clients (\<^verbatim>\<open>database/\<close>, \<^verbatim>\<open>redis/\<close>), HTTP and gRPC
  servers (\<^verbatim>\<open>server/\<close>) and helpers (\<^verbatim>\<open>utils/\<close>).

  \<^bold>\<open>Conventions.\<close> A struct is a record, an interface a locale, an enumeration a datatype. Instants and
  durations count nanoseconds as integers, a byte is an \<open>8 word\<close>, a \<^verbatim>\<open>uint64\<close> a \<open>64 word\<close>, an \<^verbatim>\<open>int32\<close> a
  \<open>32 word\<close>. A call that can panic returns \<open>'a call\<close>; errors are values of \<open>go_error\<close>. A method that holds
  its mutex throughout is one function. Where a method gives up its mutex or uses atomics, it is cut at
  these points and a step relation interleaves the parts; invariants are proved through the locale
  \<open>inductive_invariant\<close> of \<^verbatim>\<open>Go_Prelude\<close>. Code outside the repository is a table of functions carried by
  the object that uses it (a B-tree, a bitmap, a Redis server) whose documented behaviour is a contract
  in the object's well-formedness predicate; every contract is shown to hold for a concrete table.
  Logging is not modelled.

  \<^bold>\<open>Theories.\<close>
  \<^item> \<^verbatim>\<open>Go_Prelude\<close>: bytes, instants, contexts with cancellation and deadlines, errors, stable insertion,
    alternating sequences, reachability; the locales \<open>inductive_invariant\<close>, \<open>simulation\<close> and \<open>ordered_registry\<close>.
  \<^item> \<^verbatim>\<open>Utils\<close> (\<^verbatim>\<open>utils/\<close>): the two-pointer difference equals the multiset difference, removal of duplicates,
    \<^verbatim>\<open>GoRecover\<close>, contexts without a visible deadline.
  \<^item> \<^verbatim>\<open>Byte_BTree\<close> (\<^verbatim>\<open>btree/btree_bytes.go\<close>): the tree of items with expiry refined to a map from keys to items;
    expiry, purging in two critical sections, and the race between them. Locale \<open>keyed_store\<close>.
  \<^item> \<^verbatim>\<open>Kernel_Shutdown\<close> (\<^verbatim>\<open>kernel.go\<close>, hooks): the linked list in an explicit heap refined to a list in stable
    priority order; termination of both loops is part of the results, as the loops are partial functions.
  \<^item> \<^verbatim>\<open>Redis_Locker\<close> (\<^verbatim>\<open>locker/\<close>): the Lua scripts over the commands of Redis, with requests and replies that
    may be lost. Locale \<open>lock_service\<close>: mutual exclusion.
  \<^item> \<^verbatim>\<open>Watchdog\<close> (\<^verbatim>\<open>watchdog/\<close>): the goroutine of \<^verbatim>\<open>Elect\<close> as a state machine, any number of processes and one
    server; events alternate, a stale leader steps down, a leader that reaches Redis keeps its lock.
  \<^item> \<^verbatim>\<open>Election\<close>: what the election of many processes gives. While no lease runs out under a leader there is
    at most one leader; without this there can be two; a lock nobody renews goes to the next process.
  \<^item> \<^verbatim>\<open>Kernel\<close> (\<^verbatim>\<open>kernel.go\<close>, the rest): supervisors, signals, options, \<^verbatim>\<open>RunKernel\<close>; the calls of a
    supervisor's callbacks alternate in every interleaving, \<^verbatim>\<open>Stop\<close> stops what runs.
  \<^item> \<^verbatim>\<open>Scheduler\<close> (\<^verbatim>\<open>scheduler/\<close>): methods as functions, goroutines as threads; the rate limit, what \<^verbatim>\<open>Stop\<close>
    waits for, the ways it can wait for ever. Locale \<open>job_scheduler\<close> for \<^verbatim>\<open>TaskSupervisor\<close>.
  \<^item> \<^verbatim>\<open>Scheduler_Stop\<close>: with one client, the wait of \<^verbatim>\<open>Stop\<close> ends after a bounded number of steps of the
    goroutines, given that the functions of the jobs return.
  \<^item> \<^verbatim>\<open>Scheduler_Overlap\<close>: a \<^verbatim>\<open>Start\<close> during the wait of \<^verbatim>\<open>Stop\<close> revives goroutines of the stopped round.
  \<^item> \<^verbatim>\<open>Leader_Service\<close>: watchdogs, supervisors, \<^verbatim>\<open>Kernel.Stop\<close> and schedulers of many processes together, with
    the callbacks cut where the scheduler gives up its mutexes: jobs run on the leader only, and on one
    process at most.
  \<^item> \<^verbatim>\<open>Timed_Election\<close>: the same system with the tickers of the watchdogs on the clock. The intervals of
    \<^verbatim>\<open>NewRedisWatchdogLeader\<close> renew a lease before it ends, which a simulation turns into the assumption of
    the untimed results: at most one leader and at most one process that runs jobs.
  \<^item> \<^verbatim>\<open>Readiness_Barrier\<close> (\<^verbatim>\<open>readiness_barrier/\<close>): every method cut at its atomic actions; an executable
    interpreter of the steps exhibits the races.
  \<^item> \<^verbatim>\<open>Bitmap_Storage\<close>, \<^verbatim>\<open>Bitmap_Replicator\<close> (\<^verbatim>\<open>bitmap/\<close>): the storage refined to a set, the replicators
    behind the locale \<open>replicator\<close> with the round trip through a dump.
  \<^item> \<^verbatim>\<open>Bitmap_Service\<close>: a storage and its replicator in one service whose process may crash, \<^verbatim>\<open>Replicate\<close> and
    \<^verbatim>\<open>Recover\<close> cut at their calls: what is recovered is a whole set of the history, not older than the last
    acknowledged replication.
  \<^item> \<^verbatim>\<open>Clickhouse\<close>, \<^verbatim>\<open>Postgres\<close>, \<^verbatim>\<open>Redis_Client\<close>: defaults, connection handling, error classification, 32-bit
    pool sizes, functional options.
  \<^item> \<^verbatim>\<open>Http_Server\<close>, \<^verbatim>\<open>Grpc_Server\<close> (\<^verbatim>\<open>server/\<close>): response writers, middlewares, the states of a draining server,
    shutdown timing, validation of the gateway's Swagger paths and its routes. A router is a table of
    functions with chi's contract.
  \<^item> \<^verbatim>\<open>Http_Drain\<close>: the chi server under requests that arrive while it shuts down: none that was accepted is
    lost if the handlers return in time, and those that come later are answered 503.
  \<^item> \<^verbatim>\<open>Examples\<close> (\<^verbatim>\<open>examples/cmd/\<close>): both example programs over the models of their components: what the
    ping answers, how the programs stop, and that the second one never runs its job.
  \<^item> This theory: the properties that join components.

  \<^bold>\<open>Bounds.\<close> No definition uses fuel. The loops along the linked list are partial functions proved to
  return on every list \<^verbatim>\<open>RegisterShutdown\<close> can build; all other loops are structural or have a measure.
  Capacities are those of the source (8 events, 4 signals, 1 operating system signal).

  \<^bold>\<open>Not modelled.\<close> Sockets and the loop of \<^verbatim>\<open>http.Server\<close> (its TLS, log and context options are opaque), the text of log
  lines, the choice of \<^verbatim>\<open>GOMAXPROCS\<close> by automaxprocs, URL parsing and the compose file. Data races on unlocked fields (\<^verbatim>\<open>Connection.GetDB\<close>, \<^verbatim>\<open>job.ctx\<close> in \<^verbatim>\<open>exec\<close>) are treated as atomic reads.
  A goroutine scheduler is any interleaving: results of the form "this never happens" hold for all of
  them, results of the form "this can happen" for some.
\<close>

section \<open>Leadership and supervision\<close>

text \<open>The callback an event leads to.\<close>

definition callback_of :: "int \<Rightarrow> callback" where
  "callback_of ev = (if ev = TakenAcquire then CbStart else CbStop)"

lemma handle_event_quiet:
  assumes "snd (sup_Start s w) = None" and "snd (sup_Stop s w) = None"
    and "Working s \<longleftrightarrow> ev = LostAcquire" and "ev = TakenAcquire \<or> ev = LostAcquire"
  shows "\<exists>w'. handle_event ev (s, w) =
    (s\<lparr>sup_calls := sup_calls s @ [callback_of ev], Working := (ev = TakenAcquire)\<rparr>, w')"
  using assms
  by (cases "sup_Start s w"; cases "sup_Stop s w")
    (auto simp: handle_event_def on_lost_def on_taken_def callback_of_def)

lemma handle_events_quiet:
  assumes "\<forall>w. snd (sup_Start s w) = None" and "\<forall>w. snd (sup_Stop s w) = None"
    and "if Working s then alternates LostAcquire TakenAcquire evs else alternates TakenAcquire LostAcquire evs"
  shows "\<exists>w'. fold handle_event evs (s, w) =
    (s\<lparr>sup_calls := sup_calls s @ map callback_of evs,
       Working := (if evs = [] then Working s else last evs = TakenAcquire)\<rparr>, w')"
  using assms
proof (induction evs arbitrary: s w)
  case (Cons ev evs)
  then have ev: "ev = TakenAcquire \<or> ev = LostAcquire" "Working s \<longleftrightarrow> ev = LostAcquire"
    by (auto split: if_splits)
  with handle_event_quiet [of s w ev] Cons.prems obtain w1 where
    w1: "handle_event ev (s, w) =
      (s\<lparr>sup_calls := sup_calls s @ [callback_of ev], Working := (ev = TakenAcquire)\<rparr>, w1)" by auto
  let ?s1 = "s\<lparr>sup_calls := sup_calls s @ [callback_of ev], Working := (ev = TakenAcquire)\<rparr>"
  have "if Working ?s1 then alternates LostAcquire TakenAcquire evs else alternates TakenAcquire LostAcquire evs"
    using Cons.prems(3) ev by (auto split: if_splits)
  with Cons.IH [of ?s1 w1] Cons.prems(1,2) obtain w2 where
    "fold handle_event evs (?s1, w1) =
      (?s1\<lparr>sup_calls := sup_calls ?s1 @ map callback_of evs,
         Working := (if evs = [] then Working ?s1 else last evs = TakenAcquire)\<rparr>, w2)"
    by auto
  with w1 show ?case by simp
qed simp



end
